theory Spec2Isabelle
  imports Complex_Main
begin

section \<open>NoteMesh graph view: data model\<close>

text \<open>
  The development follows the monolithic \<^verbatim>\<open>GraphRenderer\<close> class (graph.js) and, where the
  modular renderer differs, the modular class as well.  JavaScript numbers are modelled by
  \<^typ>\<open>real\<close> (exact arithmetic; rounding, infinities and NaN are not represented), and counters
  that only ever hold natural numbers by \<^typ>\<open>nat\<close>.  A reference to a node object is modelled
  by the position of that object in \<^verbatim>\<open>this.nodes\<close>: identity of node references is
  equality of positions, and \<^verbatim>\<open>null\<close> is \<^term>\<open>None\<close>.  Note identifiers are only ever
  compared for strict equality, so their type is a parameter.  A string is a list of code
  units below 256 (\<^typ>\<open>char\<close>).
\<close>

record 'i Note =
  note_id :: 'i
  note_title :: string
  note_content :: string
  note_tags :: "string list"
  links :: "string list"

record 'i node =
  node_id :: 'i
  title :: string
  content :: string
  tags :: "string list"
  node_x :: real
  node_y :: real
  node_vx :: real
  node_vy :: real
  radius :: real
  connections :: nat
  node_note :: "'i Note"

text \<open>A direct-link edge has no \<^verbatim>\<open>type\<close> and no \<^verbatim>\<open>commonTags\<close> property (\<^term>\<open>None\<close>).\<close>

record 'i edge =
  source :: 'i
  target :: 'i
  strength :: real
  etype :: "string option"
  commonTags :: "string list option"

record camera =
  cam_x :: real
  cam_y :: real
  zoom :: real

record node_colors =
  col_default :: string
  col_selected :: string
  col_hovered :: string
  col_text :: string
  col_textSelected :: string

record node_config =
  cfg_radius :: real
  radiusSelected :: real
  radiusHovered :: real
  node_colors :: node_colors

record edge_colors =
  ecol_default :: string
  ecol_highlighted :: string

record edge_config =
  width :: real
  widthHovered :: real
  edge_colors :: edge_colors

record physics_config =
  repulsion :: real
  attraction :: real
  damping :: real
  minDistance :: real
  maxDistance :: real

record animation_config =
  enabled :: bool
  fps :: nat

record config =
  cfg_node :: node_config
  cfg_edge :: edge_config
  physics :: physics_config
  cfg_animation :: animation_config

definition default_config :: config where
  "default_config =
     \<lparr> cfg_node = \<lparr> cfg_radius = 8, radiusSelected = 12, radiusHovered = 10,
                    node_colors = \<lparr> col_default = ''#6366f1'', col_selected = ''#f59e0b'',
                                    col_hovered = ''#8b5cf6'', col_text = ''#1e293b'',
                                    col_textSelected = ''#ffffff'' \<rparr> \<rparr>,
       cfg_edge = \<lparr> width = 2, widthHovered = 3,
                    edge_colors = \<lparr> ecol_default = ''#cbd5e1'',
                                    ecol_highlighted = ''#6366f1'' \<rparr> \<rparr>,
       physics = \<lparr> repulsion = 100, attraction = 1 / 100, damping = 95 / 100,
                   minDistance = 50, maxDistance = 200 \<rparr>,
       cfg_animation = \<lparr> enabled = True, fps = 60 \<rparr> \<rparr>"


section \<open>Building the graph (generateGraph)\<close>

text \<open>
  \<^verbatim>\<open>String.prototype.toLowerCase\<close> is a built-in of the host.  The functions of the
  link pass take it as the parameter \<open>lower\<close>, and the renderer record below carries it as the
  field \<open>toLowerCase\<close>, so that what is proved of \<^verbatim>\<open>generateGraph\<close> holds for every such
  function.  \<open>lowerLatin1\<close> is the built-in on the strings of this model: among the code
  units below 256 the capital letters are \<open>A\<close> to \<open>Z\<close> and \<open>0xC0\<close> to \<open>0xDE\<close> without the
  multiplication sign \<open>0xD7\<close>, and each has its small letter 32 places further.
\<close>

definition lowerChar :: "char \<Rightarrow> char" where
  "lowerChar c =
     (let n = (of_char c :: nat)
      in if (65 \<le> n \<and> n \<le> 90) \<or> (192 \<le> n \<and> n \<le> 222 \<and> n \<noteq> 215)
         then char_of (n + 32) else c)"

definition lowerLatin1 :: "string \<Rightarrow> string" where
  "lowerLatin1 s = map lowerChar s"

text \<open>
  \<^verbatim>\<open>Array.prototype.find\<close> on \<^verbatim>\<open>this.nodes\<close>: the result is a reference to the first
  node that satisfies the predicate, that is, its position; \<^verbatim>\<open>undefined\<close> is \<^term>\<open>None\<close>.
\<close>

fun findNode :: "('a \<Rightarrow> bool) \<Rightarrow> 'a list \<Rightarrow> nat option" where
  "findNode P [] = None"
| "findNode P (n # ns) = (if P n then Some 0 else map_option Suc (findNode P ns))"

text \<open>The search for an edge between two identifiers, in either direction.\<close>

definition existingEdge :: "'i edge list \<Rightarrow> 'i \<Rightarrow> 'i \<Rightarrow> 'i edge option" where
  "existingEdge es a b =
     List.find (\<lambda>e. (source e = a \<and> target e = b) \<or> (source e = b \<and> target e = a)) es"

text \<open>
  One node per note.  The calls of \<^verbatim>\<open>Math.random\<close> are the values \<open>rnd 0\<close>, \<open>rnd 1\<close>, ...
  in the order in which the code draws them: two per note, \<open>x\<close> first.
\<close>

definition createNode ::
  "config \<Rightarrow> real \<Rightarrow> real \<Rightarrow> real \<Rightarrow> (nat \<Rightarrow> real) \<Rightarrow> nat \<Rightarrow> 'i Note \<Rightarrow> 'i node" where
  "createNode cfg cw ch dpr rnd index n =
     \<lparr> node_id = note_id n, title = note_title n, content = note_content n,
       tags = note_tags n,
       node_x = rnd (2 * index) * cw / dpr,
       node_y = rnd (2 * index + 1) * ch / dpr,
       node_vx = 0, node_vy = 0,
       radius = cfg_radius (cfg_node cfg),
       connections = 0,
       node_note = n \<rparr>"

definition createNodes ::
  "config \<Rightarrow> real \<Rightarrow> real \<Rightarrow> real \<Rightarrow> (nat \<Rightarrow> real) \<Rightarrow> 'i Note list \<Rightarrow> 'i node list" where
  "createNodes cfg cw ch dpr rnd notes =
     map (\<lambda>(index, n). createNode cfg cw ch dpr rnd index n) (enumerate 0 notes)"

text \<open>
  The body of the inner callback of the link pass, for the source node at position \<open>i\<close> and
  one of its link titles.  The two increments are written in the order of the source.
\<close>

definition linkStep ::
  "(string \<Rightarrow> string) \<Rightarrow> nat \<Rightarrow> string \<Rightarrow> 'i node list \<times> 'i edge list
     \<Rightarrow> 'i node list \<times> 'i edge list" where
  "linkStep lower i linkTitle st =
     (let ns = fst st; es = snd st in
      case findNode (\<lambda>n. lower (title n) = lower linkTitle) ns of
        None \<Rightarrow> st
      | Some j \<Rightarrow>
          if node_id (ns ! i) \<noteq> node_id (ns ! j) then
            (case existingEdge es (node_id (ns ! i)) (node_id (ns ! j)) of
               None \<Rightarrow>
                 (let es' = es @ [\<lparr> source = node_id (ns ! i), target = node_id (ns ! j),
                                    strength = 1, etype = None, commonTags = None \<rparr>];
                      ns1 = ns[i := (ns ! i)\<lparr>connections := connections (ns ! i) + 1\<rparr>];
                      ns2 = ns1[j := (ns1 ! j)\<lparr>connections := connections (ns1 ! j) + 1\<rparr>]
                  in (ns2, es'))
             | Some e \<Rightarrow> st)
          else st)"

definition linkNode ::
  "(string \<Rightarrow> string) \<Rightarrow> nat \<Rightarrow> 'i node list \<times> 'i edge list
     \<Rightarrow> 'i node list \<times> 'i edge list" where
  "linkNode lower i st = fold (linkStep lower i) (links (node_note (fst st ! i))) st"

definition linkPass ::
  "(string \<Rightarrow> string) \<Rightarrow> 'i node list \<Rightarrow> 'i node list \<times> 'i edge list" where
  "linkPass lower ns = fold (linkNode lower) [0..<length ns] (ns, [])"

text \<open>The body of the inner callback of the tag pass; it reads the nodes and extends the edges.\<close>

definition tagStep :: "'i node \<Rightarrow> 'i node \<Rightarrow> 'i edge list \<Rightarrow> 'i edge list" where
  "tagStep nodeA nodeB es =
     (if node_id nodeA \<noteq> node_id nodeB then
        (let common = filter (\<lambda>tag. tag \<in> set (tags nodeB)) (tags nodeA) in
         if length common > 0 then
           (case existingEdge es (node_id nodeA) (node_id nodeB) of
              None \<Rightarrow> es @ [\<lparr> source = node_id nodeA, target = node_id nodeB,
                              strength = 3 / 10, etype = Some ''tag'',
                              commonTags = Some common \<rparr>]
            | Some e \<Rightarrow> es)
         else es)
      else es)"

definition tagPass :: "'i node list \<Rightarrow> 'i edge list \<Rightarrow> 'i edge list" where
  "tagPass ns es = fold (\<lambda>nodeA. fold (\<lambda>nodeB. tagStep nodeA nodeB) ns) ns es"

definition adjustRadius :: "config \<Rightarrow> 'i node \<Rightarrow> 'i node" where
  "adjustRadius cfg n =
     n\<lparr>radius := max (cfg_radius (cfg_node cfg))
                      (cfg_radius (cfg_node cfg) + real (connections n) * 2)\<rparr>"

record bounds =
  minX :: real
  maxX :: real
  minY :: real
  maxY :: real

definition getGraphBounds :: "'i node list \<Rightarrow> bounds" where
  "getGraphBounds ns =
     (if length ns = 0 then \<lparr> minX = 0, maxX = 0, minY = 0, maxY = 0 \<rparr>
      else foldl (\<lambda>b n. \<lparr> minX = min (minX b) (node_x n), maxX = max (maxX b) (node_x n),
                            minY = min (minY b) (node_y n), maxY = max (maxY b) (node_y n) \<rparr>)
             \<lparr> minX = node_x (ns ! 0), maxX = node_x (ns ! 0),
               minY = node_y (ns ! 0), maxY = node_y (ns ! 0) \<rparr> ns)"

definition centerGraph :: "real \<Rightarrow> real \<Rightarrow> real \<Rightarrow> 'i node list \<Rightarrow> 'i node list" where
  "centerGraph cw ch dpr ns =
     (if length ns = 0 then ns
      else
        (let centerX = cw / (2 * dpr);
             centerY = ch / (2 * dpr);
             b = getGraphBounds ns;
             currentCenterX = (minX b + maxX b) / 2;
             currentCenterY = (minY b + maxY b) / 2;
             offsetX = centerX - currentCenterX;
             offsetY = centerY - currentCenterY
         in map (\<lambda>n. n\<lparr>node_x := node_x n + offsetX, node_y := node_y n + offsetY\<rparr>) ns))"


section \<open>The renderer object\<close>

text \<open>
  The 2D context is modelled by the sequence of calls and property assignments made on it.
\<close>

datatype draw_op =
    ClearRect real real real real
  | Save
  | Restore
  | Translate real real
  | Scale real real
  | SetStrokeStyle string
  | SetFillStyle string
  | SetLineWidth real
  | SetLineDash "real list"
  | SetGlobalAlpha real
  | BeginPath
  | MoveTo real real
  | LineTo real real
  | Arc real real real real real
  | Fill
  | Stroke
  | SetFont string
  | SetTextAlign string
  | SetTextBaseline string
  | FillRect real real real real
  | StrokeRect real real real real
  | FillText string real real

datatype event_target = Canvas | Window

datatype handler =
    OnMouseDown | OnMouseMove | OnMouseUp | OnWheel | OnClick | OnDoubleClick
  | OnTouchStart | OnTouchMove | OnTouchEnd | ResizeCanvas

text \<open>
  \<^verbatim>\<open>this.m.bind(this)\<close> makes a new function object at every evaluation; the number is the
  identity of that object.
\<close>

datatype callback = Bound handler nat

record listener =
  l_target :: event_target
  l_type :: string
  l_callback :: callback

text \<open>
  The fields of the instance, followed by the parts of the host the methods read or change: the
  note store, the built-in \<^verbatim>\<open>toLowerCase\<close>, the text metrics of the context (by font),
  the canvas size in device pixels, the
  bounding rectangle of the canvas, the cursor style, the calls made on the context, the
  registered listeners, the counter of function objects and the frame requests still pending.
\<close>

record 'i graph_renderer =
  nodes :: "'i node list"
  edges :: "'i edge list"
  selectedNode :: "nat option"
  hoveredNode :: "nat option"
  isDragging :: bool
  dragNode :: "nat option"
  isPanning :: bool
  lastPanPos :: "(real \<times> real) option"
  camera :: camera
  anim_frame :: "nat option"
  running :: bool
  config :: config
  noteManager :: "'i Note list"
  toLowerCase :: "string \<Rightarrow> string"
  measureText :: "string \<Rightarrow> string \<Rightarrow> real"
  canvas_width :: real
  canvas_height :: real
  devicePixelRatio :: real
  rect_left :: real
  rect_top :: real
  cursor :: string
  ctx :: "draw_op list"
  listeners :: "listener list"
  nextFunction :: nat
  pendingFrames :: "nat list"
  nextHandle :: nat

section \<open>Rendering\<close>

text \<open>The loop of \<^verbatim>\<open>truncateText\<close>; \<^verbatim>\<open>slice(0, -1)\<close> drops the last character.\<close>

function shrinkText :: "(string \<Rightarrow> real) \<Rightarrow> real \<Rightarrow> string \<Rightarrow> string" where
  "shrinkText m maxWidth truncated =
     (if m (truncated @ ''...'') > maxWidth \<and> length truncated > 0
      then shrinkText m maxWidth (butlast truncated) else truncated)"
  by pat_completeness auto
termination
  by (relation "measure (\<lambda>(m, maxWidth, truncated). length truncated)") auto

declare shrinkText.simps [simp del]

definition truncateText :: "(string \<Rightarrow> real) \<Rightarrow> string \<Rightarrow> real \<Rightarrow> string" where
  "truncateText m text maxWidth =
     (if m text \<le> maxWidth then text else shrinkText m maxWidth text @ ''...'')"

text \<open>\<^verbatim>\<open>text.split(' ')\<close>\<close>

fun splitSpace :: "string \<Rightarrow> string list" where
  "splitSpace [] = [Nil]"
| "splitSpace (c # cs) =
     (if c = CHR '' '' then [] # splitSpace cs
      else (case splitSpace cs of [] \<Rightarrow> [c # Nil] | w # ws \<Rightarrow> (c # w) # ws))"

fun wrapLoop ::
  "(string \<Rightarrow> real) \<Rightarrow> real \<Rightarrow> real \<Rightarrow> real \<Rightarrow> nat \<Rightarrow> string list \<Rightarrow> string \<Rightarrow> real
     \<Rightarrow> draw_op list" where
  "wrapLoop m px maxWidth lineHeight i [] line currentY = [FillText line px currentY]"
| "wrapLoop m px maxWidth lineHeight i (w # ws) line currentY =
     (let testLine = line @ w @ '' '' in
      if m testLine > maxWidth \<and> i > 0
      then FillText line px currentY
             # wrapLoop m px maxWidth lineHeight (i + 1) ws (w @ '' '') (currentY + lineHeight)
      else wrapLoop m px maxWidth lineHeight (i + 1) ws testLine currentY)"

definition wrapText ::
  "(string \<Rightarrow> real) \<Rightarrow> string \<Rightarrow> real \<Rightarrow> real \<Rightarrow> real \<Rightarrow> real \<Rightarrow> draw_op list" where
  "wrapText m text px py maxWidth lineHeight =
     wrapLoop m px maxWidth lineHeight 0 (splitSpace text) [] py"

text \<open>Decimal digits of an integer, as a template literal prints it.\<close>

function showNat :: "nat \<Rightarrow> string" where
  "showNat n =
     (if n < 10 then [''0123456789'' ! n]
      else showNat (n div 10) @ [''0123456789'' ! (n mod 10)])"
  by pat_completeness auto
termination
  by (relation "measure (\<lambda>n. n)") auto

declare showNat.simps [simp del]

definition showInt :: "int \<Rightarrow> string" where
  "showInt k = (if k < 0 then CHR ''-'' # showNat (nat (- k)) else showNat (nat k))"

text \<open>\<^verbatim>\<open>Math.round\<close>: the nearest integer, halves rounded up.\<close>

definition mathRound :: "real \<Rightarrow> int" where
  "mathRound r = \<lfloor>r + 1 / 2\<rfloor>"

text \<open>\<^verbatim>\<open>join(', ')\<close>\<close>

fun joinComma :: "string list \<Rightarrow> string" where
  "joinComma [] = []"
| "joinComma [t] = t"
| "joinComma (t # ts) = t @ '', '' @ joinComma ts"

definition renderEdge :: "'i graph_renderer \<Rightarrow> 'i edge \<Rightarrow> draw_op list" where
  "renderEdge s e =
     (case findNode (\<lambda>n. node_id n = source e) (nodes s) of
        None \<Rightarrow> []
      | Some i \<Rightarrow>
         (case findNode (\<lambda>n. node_id n = target e) (nodes s) of
            None \<Rightarrow> []
          | Some j \<Rightarrow>
             (let sourceNode = nodes s ! i;
                  targetNode = nodes s ! j;
                  isHighlighted = (Some i = selectedNode s \<or> Some j = selectedNode s
                                   \<or> Some i = hoveredNode s \<or> Some j = hoveredNode s)
              in [SetStrokeStyle (if isHighlighted
                                  then ecol_highlighted (edge_colors (cfg_edge (config s)))
                                  else ecol_default (edge_colors (cfg_edge (config s)))),
                  SetLineWidth (if isHighlighted then widthHovered (cfg_edge (config s))
                                else width (cfg_edge (config s)))]
                 @ (if etype e = Some ''tag'' then [SetLineDash [5, 5], SetGlobalAlpha (1 / 2)]
                    else [SetLineDash [], SetGlobalAlpha 1])
                 @ [BeginPath, MoveTo (node_x sourceNode) (node_y sourceNode),
                    LineTo (node_x targetNode) (node_y targetNode), Stroke,
                    SetLineDash [], SetGlobalAlpha 1])))"

definition renderEdges :: "'i graph_renderer \<Rightarrow> draw_op list" where
  "renderEdges s = concat (map (renderEdge s) (edges s))"

text \<open>The radius with which \<^verbatim>\<open>renderNodes\<close> draws a node.\<close>

definition drawnRadius :: "config \<Rightarrow> bool \<Rightarrow> bool \<Rightarrow> 'i node \<Rightarrow> real" where
  "drawnRadius cfg isSelected isHovered n =
     (if isSelected then radiusSelected (cfg_node cfg)
      else if isHovered then radiusHovered (cfg_node cfg)
      else radius n)"

definition renderNode :: "'i graph_renderer \<Rightarrow> nat \<Rightarrow> 'i node \<Rightarrow> draw_op list" where
  "renderNode s k n =
     (let isSelected = (Some k = selectedNode s);
          isHovered = (Some k = hoveredNode s);
          colors = node_colors (cfg_node (config s));
          r = drawnRadius (config s) isSelected isHovered n;
          fillColor = (if isSelected then col_selected colors
                       else if isHovered then col_hovered colors else col_default colors);
          textColor = (if isSelected then col_textSelected colors else col_text colors);
          maxTextWidth = r * 4;
          text = truncateText (measureText s ''12px Inter, sans-serif'') (title n) maxTextWidth;
          textWidth = measureText s ''12px Inter, sans-serif'' text;
          textHeight = 16
      in [SetFillStyle fillColor, SetStrokeStyle ''#ffffff'', SetLineWidth 2,
          BeginPath, Arc (node_x n) (node_y n) r 0 (2 * pi), Fill, Stroke,
          SetFillStyle textColor, SetFont ''12px Inter, sans-serif'',
          SetTextAlign ''center'', SetTextBaseline ''middle'']
         @ (if \<not> isSelected
            then [SetFillStyle ''rgba(255, 255, 255, 0.9)'',
                  FillRect (node_x n - textWidth / 2 - 4) (node_y n + r + 4)
                           (textWidth + 8) textHeight,
                  SetFillStyle textColor]
            else [])
         @ [FillText text (node_x n) (node_y n + r + 12)])"

definition renderNodes :: "'i graph_renderer \<Rightarrow> draw_op list" where
  "renderNodes s = concat (map (\<lambda>(k, n). renderNode s k n) (enumerate 0 (nodes s)))"

definition renderNodeInfo :: "'i graph_renderer \<Rightarrow> 'i node \<Rightarrow> draw_op list" where
  "renderNodeInfo s n =
     (let canvasWidth = canvas_width s / devicePixelRatio s;
          padding = 16;
          boxWidth = 280;
          boxHeight = 120;
          bx = canvasWidth - boxWidth - padding;
          by = padding;
          title' = truncateText (measureText s ''bold 14px Inter, sans-serif'') (title n)
                     (boxWidth - 32);
          content' = truncateText (measureText s ''12px Inter, sans-serif'') (content n)
                       (boxWidth - 32)
      in [SetFillStyle ''rgba(255, 255, 255, 0.95)'', SetStrokeStyle ''#cbd5e1'',
          SetLineWidth 1,
          FillRect bx by boxWidth boxHeight, StrokeRect bx by boxWidth boxHeight,
          SetFillStyle ''#1e293b'', SetFont ''bold 14px Inter, sans-serif'',
          SetTextAlign ''left'', SetTextBaseline ''top'',
          FillText title' (bx + 16) (by + 16),
          SetFont ''12px Inter, sans-serif'', SetFillStyle ''#64748b'']
         @ wrapText (measureText s ''12px Inter, sans-serif'') content' (bx + 16) (by + 40)
             (boxWidth - 32) 14
         @ (if length (tags n) > 0
            then (let tagsText = joinComma (take 3 (tags n));
                      truncatedTags = truncateText (measureText s ''10px Inter, sans-serif'')
                                        tagsText (boxWidth - 32)
                  in [SetFillStyle ''#6366f1'', SetFont ''10px Inter, sans-serif'',
                      FillText (''Tags: '' @ truncatedTags) (bx + 16) (by + 90)])
            else []))"

text \<open>
  The statistics and the panel of the selected node.  A selected reference that is not a
  position of the current array denotes an object the model does not keep; no panel is drawn
  for it.
\<close>

definition renderUI :: "'i graph_renderer \<Rightarrow> draw_op list" where
  "renderUI s =
     (let stats = [''Notes: '' @ showNat (length (nodes s)),
                   ''Connections: '' @ showNat (length (edges s)),
                   ''Zoom: '' @ showInt (mathRound (zoom (camera s) * 100)) @ ''%'']
      in [SetFillStyle ''#64748b'', SetFont ''14px Inter, sans-serif'',
          SetTextAlign ''left'', SetTextBaseline ''top'']
         @ map (\<lambda>(index, stat). FillText stat 16 (16 + real index * 20)) (enumerate 0 stats)
         @ (case selectedNode s of
              None \<Rightarrow> []
            | Some k \<Rightarrow> if k < length (nodes s) then renderNodeInfo s (nodes s ! k) else []))"

definition renderEmptyState :: "'i graph_renderer \<Rightarrow> draw_op list" where
  "renderEmptyState s =
     (let canvasWidth = canvas_width s / devicePixelRatio s;
          canvasHeight = canvas_height s / devicePixelRatio s
      in [SetFillStyle ''#64748b'', SetFont ''18px Inter, sans-serif'',
          SetTextAlign ''center'', SetTextBaseline ''middle'',
          FillText ''No notes to visualize'' (canvasWidth / 2) (canvasHeight / 2 - 20),
          SetFont ''14px Inter, sans-serif'',
          FillText ''Create some notes and link them to see the graph''
            (canvasWidth / 2) (canvasHeight / 2 + 10)])"

text \<open>What one call of \<^verbatim>\<open>render\<close> of the monolithic class does on the context.\<close>

definition renderOps :: "'i graph_renderer \<Rightarrow> draw_op list" where
  "renderOps s =
     (let canvasWidth = canvas_width s / devicePixelRatio s;
          canvasHeight = canvas_height s / devicePixelRatio s
      in [ClearRect 0 0 canvasWidth canvasHeight,
          Save, Translate (cam_x (camera s)) (cam_y (camera s)),
          Scale (zoom (camera s)) (zoom (camera s))]
         @ renderEdges s @ renderNodes s @ [Restore] @ renderUI s)"

definition render :: "'i graph_renderer \<Rightarrow> 'i graph_renderer" where
  "render s = s\<lparr>ctx := ctx s @ renderOps s\<rparr>"

text \<open>\<^verbatim>\<open>render\<close> of the modular class, which tests for the empty node set after clearing.\<close>

definition renderOps_modular :: "'i graph_renderer \<Rightarrow> draw_op list" where
  "renderOps_modular s =
     (let canvasWidth = canvas_width s / devicePixelRatio s;
          canvasHeight = canvas_height s / devicePixelRatio s
      in ClearRect 0 0 canvasWidth canvasHeight
         # (if length (nodes s) = 0 then renderEmptyState s
            else [Save, Translate (cam_x (camera s)) (cam_y (camera s)),
                  Scale (zoom (camera s)) (zoom (camera s))]
                 @ renderEdges s @ renderNodes s @ [Restore] @ renderUI s))"


section \<open>generateGraph and refresh\<close>

definition generateGraph :: "(nat \<Rightarrow> real) \<Rightarrow> 'i graph_renderer \<Rightarrow> 'i graph_renderer" where
  "generateGraph rnd s =
     (let notes = noteManager s;
          s0 = s\<lparr>nodes := [], edges := []\<rparr>
      in if length notes = 0 then s0\<lparr>ctx := ctx s0 @ renderEmptyState s0\<rparr>
         else
           (let ns0 = createNodes (config s) (canvas_width s) (canvas_height s)
                        (devicePixelRatio s) rnd notes;
                linked = linkPass (toLowerCase s) ns0;
                es = tagPass (fst linked) (snd linked);
                ns1 = map (adjustRadius (config s)) (fst linked)
            in s0\<lparr>nodes := centerGraph (canvas_width s) (canvas_height s)
                               (devicePixelRatio s) ns1,
                   edges := es\<rparr>))"

definition refresh :: "(nat \<Rightarrow> real) \<Rightarrow> 'i graph_renderer \<Rightarrow> 'i graph_renderer" where
  "refresh rnd s = generateGraph rnd s"

section \<open>The physics step (updatePhysics)\<close>

text \<open>
  The body of the inner callback of the repulsion pass, for the nodes at positions \<open>i\<close> and
  \<open>j\<close>.  The callbacks write velocities only, so the positions read are those before the pass.
\<close>

definition repelStep :: "physics_config \<Rightarrow> nat \<Rightarrow> nat \<Rightarrow> 'i node list \<Rightarrow> 'i node list" where
  "repelStep ph i j ns =
     (if node_id (ns ! i) = node_id (ns ! j) then ns
      else
        (let dx = node_x (ns ! j) - node_x (ns ! i);
             dy = node_y (ns ! j) - node_y (ns ! i);
             distance = sqrt (dx * dx + dy * dy)
         in if distance = 0 then ns
            else if distance < maxDistance ph then
              (let force = repulsion ph / (distance * distance);
                   fx = (dx / distance) * force;
                   fy = (dy / distance) * force;
                   ns1 = ns[i := (ns ! i)\<lparr>node_vx := node_vx (ns ! i) - fx,
                                           node_vy := node_vy (ns ! i) - fy\<rparr>]
               in ns1[j := (ns1 ! j)\<lparr>node_vx := node_vx (ns1 ! j) + fx,
                                        node_vy := node_vy (ns1 ! j) + fy\<rparr>])
            else ns))"

definition repelPass :: "physics_config \<Rightarrow> 'i node list \<Rightarrow> 'i node list" where
  "repelPass ph ns =
     fold (\<lambda>i. fold (\<lambda>j. repelStep ph i j) [0..<length ns]) [0..<length ns] ns"

text \<open>The callback of the spring pass, for one edge.\<close>

definition springStep :: "physics_config \<Rightarrow> 'i edge \<Rightarrow> 'i node list \<Rightarrow> 'i node list" where
  "springStep ph e ns =
     (case findNode (\<lambda>n. node_id n = source e) ns of
        None \<Rightarrow> ns
      | Some i \<Rightarrow>
         (case findNode (\<lambda>n. node_id n = target e) ns of
            None \<Rightarrow> ns
          | Some j \<Rightarrow>
             (let dx = node_x (ns ! j) - node_x (ns ! i);
                  dy = node_y (ns ! j) - node_y (ns ! i);
                  distance = sqrt (dx * dx + dy * dy)
              in if distance = 0 then ns
                 else
                   (let targetDistance = (if etype e = Some ''tag'' then maxDistance ph * (3 / 2)
                                          else maxDistance ph);
                        force = attraction ph * (distance - targetDistance) * strength e;
                        fx = (dx / distance) * force;
                        fy = (dy / distance) * force;
                        ns1 = ns[i := (ns ! i)\<lparr>node_vx := node_vx (ns ! i) + fx,
                                                node_vy := node_vy (ns ! i) + fy\<rparr>]
                    in ns1[j := (ns1 ! j)\<lparr>node_vx := node_vx (ns1 ! j) - fx,
                                             node_vy := node_vy (ns1 ! j) - fy\<rparr>]))))"

definition springPass :: "physics_config \<Rightarrow> 'i edge list \<Rightarrow> 'i node list \<Rightarrow> 'i node list" where
  "springPass ph es ns = fold (springStep ph) es ns"

text \<open>
  The callback of the last pass for a node that is not the dragged one: damping, the move, and
  the four clamps in the order of the source.
\<close>

definition moveNode :: "physics_config \<Rightarrow> 'i node \<Rightarrow> 'i node" where
  "moveNode ph n =
     (let n1 = n\<lparr>node_vx := node_vx n * damping ph\<rparr>;
          n2 = n1\<lparr>node_vy := node_vy n1 * damping ph\<rparr>;
          n3 = n2\<lparr>node_x := node_x n2 + node_vx n2\<rparr>
      in n3\<lparr>node_y := node_y n3 + node_vy n3\<rparr>)"

definition clampLeft :: "real \<Rightarrow> 'i node \<Rightarrow> 'i node" where
  "clampLeft margin n = (if node_x n < margin then n\<lparr>node_x := margin, node_vx := 0\<rparr> else n)"

definition clampRight :: "real \<Rightarrow> real \<Rightarrow> 'i node \<Rightarrow> 'i node" where
  "clampRight canvasWidth margin n =
     (if node_x n > canvasWidth - margin
      then n\<lparr>node_x := canvasWidth - margin, node_vx := 0\<rparr> else n)"

definition clampTop :: "real \<Rightarrow> 'i node \<Rightarrow> 'i node" where
  "clampTop margin n = (if node_y n < margin then n\<lparr>node_y := margin, node_vy := 0\<rparr> else n)"

definition clampBottom :: "real \<Rightarrow> real \<Rightarrow> 'i node \<Rightarrow> 'i node" where
  "clampBottom canvasHeight margin n =
     (if node_y n > canvasHeight - margin
      then n\<lparr>node_y := canvasHeight - margin, node_vy := 0\<rparr> else n)"

definition integrateNode :: "physics_config \<Rightarrow> real \<Rightarrow> real \<Rightarrow> 'i node \<Rightarrow> 'i node" where
  "integrateNode ph canvasWidth canvasHeight n =
     (let m = moveNode ph n;
          margin = radius m + 10
      in clampBottom canvasHeight margin
           (clampTop margin (clampRight canvasWidth margin (clampLeft margin m))))"

definition integratePass ::
  "physics_config \<Rightarrow> real \<Rightarrow> real \<Rightarrow> nat option \<Rightarrow> 'i node list \<Rightarrow> 'i node list" where
  "integratePass ph canvasWidth canvasHeight drag ns =
     map (\<lambda>(k, n). if Some k = drag then n else integrateNode ph canvasWidth canvasHeight n)
       (enumerate 0 ns)"

text \<open>The nodes after the two force passes, before the last pass.\<close>

definition applyForces :: "'i graph_renderer \<Rightarrow> 'i node list" where
  "applyForces s =
     springPass (physics (config s)) (edges s) (repelPass (physics (config s)) (nodes s))"

definition updatePhysics :: "'i graph_renderer \<Rightarrow> 'i graph_renderer" where
  "updatePhysics s =
     s\<lparr>nodes := integratePass (physics (config s))
                  (canvas_width s / devicePixelRatio s) (canvas_height s / devicePixelRatio s)
                  (dragNode s) (applyForces s)\<rparr>"

text \<open>Whether a clamp of the last pass fires for a node, on each axis.\<close>

definition clampFiresX :: "physics_config \<Rightarrow> real \<Rightarrow> 'i node \<Rightarrow> bool" where
  "clampFiresX ph canvasWidth n =
     (let m = moveNode ph n; margin = radius m + 10
      in node_x m < margin \<or> node_x (clampLeft margin m) > canvasWidth - margin)"

definition clampFiresY :: "physics_config \<Rightarrow> real \<Rightarrow> 'i node \<Rightarrow> bool" where
  "clampFiresY ph canvasHeight n =
     (let m = moveNode ph n; margin = radius m + 10
      in node_y m < margin \<or> node_y (clampTop margin m) > canvasHeight - margin)"


section \<open>Pointer, wheel and touch handlers\<close>

record pointer_event =
  clientX :: real
  clientY :: real
  deltaY :: real

definition getMousePos :: "'i graph_renderer \<Rightarrow> pointer_event \<Rightarrow> real \<times> real" where
  "getMousePos s e = (clientX e - rect_left s, clientY e - rect_top s)"

definition getNodeAt :: "'i graph_renderer \<Rightarrow> real \<Rightarrow> real \<Rightarrow> nat option" where
  "getNodeAt s px py =
     (let transformedX = (px - cam_x (camera s)) / zoom (camera s);
          transformedY = (py - cam_y (camera s)) / zoom (camera s)
      in findNode (\<lambda>n. (let dx = transformedX - node_x n;
                              dy = transformedY - node_y n;
                              distance = sqrt (dx * dx + dy * dy)
                          in distance \<le> radius n)) (nodes s))"

definition onMouseDown :: "pointer_event \<Rightarrow> 'i graph_renderer \<Rightarrow> 'i graph_renderer" where
  "onMouseDown e s =
     (let pos = getMousePos s e in
      case getNodeAt s (fst pos) (snd pos) of
        Some clickedNode \<Rightarrow> s\<lparr>isDragging := True, dragNode := Some clickedNode,
                               cursor := ''grabbing''\<rparr>
      | None \<Rightarrow> s\<lparr>isPanning := True, lastPanPos := Some pos, cursor := ''move''\<rparr>)"

definition onMouseMove :: "pointer_event \<Rightarrow> 'i graph_renderer \<Rightarrow> 'i graph_renderer" where
  "onMouseMove e s =
     (let pos = getMousePos s e in
      if isDragging s \<and> dragNode s \<noteq> None then
        (let k = the (dragNode s) in
         s\<lparr>nodes := (nodes s)[k := (nodes s ! k)
              \<lparr>node_x := (fst pos - cam_x (camera s)) / zoom (camera s),
               node_y := (snd pos - cam_y (camera s)) / zoom (camera s),
               node_vx := 0, node_vy := 0\<rparr>]\<rparr>)
      else if isPanning s \<and> lastPanPos s \<noteq> None then
        (let l = the (lastPanPos s) in
         s\<lparr>camera := (camera s)\<lparr>cam_x := cam_x (camera s) + (fst pos - fst l),
                                  cam_y := cam_y (camera s) + (snd pos - snd l)\<rparr>,
           lastPanPos := Some pos\<rparr>)
      else
        (let hovered = getNodeAt s (fst pos) (snd pos) in
         if hovered \<noteq> hoveredNode s
         then s\<lparr>hoveredNode := hovered,
                cursor := (if hovered \<noteq> None then ''pointer'' else ''grab'')\<rparr>
         else s))"

definition onMouseUp :: "'i graph_renderer \<Rightarrow> 'i graph_renderer" where
  "onMouseUp s =
     s\<lparr>isDragging := False, isPanning := False, dragNode := None, lastPanPos := None,
       cursor := (if hoveredNode s \<noteq> None then ''pointer'' else ''grab'')\<rparr>"

definition onClick :: "pointer_event \<Rightarrow> 'i graph_renderer \<Rightarrow> 'i graph_renderer" where
  "onClick e s =
     (let pos = getMousePos s e in
      case getNodeAt s (fst pos) (snd pos) of
        Some clickedNode \<Rightarrow>
          s\<lparr>selectedNode := (if selectedNode s = Some clickedNode then None
                              else Some clickedNode)\<rparr>
      | None \<Rightarrow> s\<lparr>selectedNode := None\<rparr>)"

definition onWheel :: "pointer_event \<Rightarrow> 'i graph_renderer \<Rightarrow> 'i graph_renderer" where
  "onWheel e s =
     (let pos = getMousePos s e;
          scaleFactor = (if deltaY e > 0 then 9 / 10 else 11 / 10);
          newZoom = max (1 / 10) (min 3 (zoom (camera s) * scaleFactor));
          c1 = (camera s)\<lparr>cam_x := fst pos - (fst pos - cam_x (camera s))
                                                * (newZoom / zoom (camera s))\<rparr>;
          c2 = c1\<lparr>cam_y := snd pos - (snd pos - cam_y c1) * (newZoom / zoom c1)\<rparr>
      in s\<lparr>camera := c2\<lparr>zoom := newZoom\<rparr>\<rparr>)"

text \<open>A touch event carries the list of its touches, each with its client coordinates.\<close>

definition onTouchStart :: "(real \<times> real) list \<Rightarrow> 'i graph_renderer \<Rightarrow> 'i graph_renderer" where
  "onTouchStart touches s =
     (if length touches = 1
      then onMouseDown \<lparr>clientX = fst (touches ! 0), clientY = snd (touches ! 0), deltaY = 0\<rparr> s
      else s)"

definition onTouchMove :: "(real \<times> real) list \<Rightarrow> 'i graph_renderer \<Rightarrow> 'i graph_renderer" where
  "onTouchMove touches s =
     (if length touches = 1
      then onMouseMove \<lparr>clientX = fst (touches ! 0), clientY = snd (touches ! 0), deltaY = 0\<rparr> s
      else s)"

definition onTouchEnd :: "'i graph_renderer \<Rightarrow> 'i graph_renderer" where
  "onTouchEnd s = onMouseUp s"

section \<open>The animation loop and the listeners\<close>

text \<open>
  The host's frame scheduler: a request returns a new non-zero handle and stays pending until
  the host runs it or it is cancelled.
\<close>

definition requestAnimationFrame :: "'i graph_renderer \<Rightarrow> nat \<times> 'i graph_renderer" where
  "requestAnimationFrame s =
     (let h = nextHandle s + 1
      in (h, s\<lparr>pendingFrames := pendingFrames s @ [h], nextHandle := h\<rparr>))"

definition cancelAnimationFrame :: "nat \<Rightarrow> 'i graph_renderer \<Rightarrow> 'i graph_renderer" where
  "cancelAnimationFrame h s = s\<lparr>pendingFrames := removeAll h (pendingFrames s)\<rparr>"

text \<open>The closure \<^verbatim>\<open>animate\<close> of \<^verbatim>\<open>startAnimation\<close>: one tick.\<close>

definition animate :: "'i graph_renderer \<Rightarrow> 'i graph_renderer" where
  "animate s =
     (if \<not> running s then s
      else (let r = requestAnimationFrame (render (updatePhysics s))
            in (snd r)\<lparr>anim_frame := Some (fst r)\<rparr>))"

definition startAnimation :: "'i graph_renderer \<Rightarrow> 'i graph_renderer" where
  "startAnimation s =
     (if \<not> enabled (cfg_animation (config s)) then s else animate (s\<lparr>running := True\<rparr>))"

definition stopAnimation :: "'i graph_renderer \<Rightarrow> 'i graph_renderer" where
  "stopAnimation s =
     (let s1 = s\<lparr>running := False\<rparr> in
      case anim_frame s1 of
        None \<Rightarrow> s1
      | Some h \<Rightarrow> if h \<noteq> 0 then cancelAnimationFrame h s1 else s1)"

text \<open>The host runs the callback of a pending request.\<close>

definition runFrame :: "nat \<Rightarrow> 'i graph_renderer \<Rightarrow> 'i graph_renderer" where
  "runFrame h s =
     (if h \<in> set (pendingFrames s) then animate (s\<lparr>pendingFrames := removeAll h (pendingFrames s)\<rparr>)
      else s)"

text \<open>
  \<^verbatim>\<open>addEventListener\<close> ignores a listener that is already registered for the same target,
  type and function object; \<^verbatim>\<open>removeEventListener\<close> removes the listener with the same
  target, type and function object, if there is one.
\<close>

definition addEventListener ::
  "event_target \<Rightarrow> string \<Rightarrow> callback \<Rightarrow> listener list \<Rightarrow> listener list" where
  "addEventListener tgt ty cb ls =
     (let l = \<lparr>l_target = tgt, l_type = ty, l_callback = cb\<rparr>
      in if l \<in> set ls then ls else ls @ [l])"

definition removeEventListener ::
  "event_target \<Rightarrow> string \<Rightarrow> callback \<Rightarrow> listener list \<Rightarrow> listener list" where
  "removeEventListener tgt ty cb ls =
     remove1 \<lparr>l_target = tgt, l_type = ty, l_callback = cb\<rparr> ls"

text \<open>\<^verbatim>\<open>target.addEventListener(type, this.m.bind(this))\<close>\<close>

definition listen ::
  "event_target \<Rightarrow> string \<Rightarrow> handler \<Rightarrow> 'i graph_renderer \<Rightarrow> 'i graph_renderer" where
  "listen tgt ty m s =
     s\<lparr>listeners := addEventListener tgt ty (Bound m (nextFunction s)) (listeners s),
       nextFunction := nextFunction s + 1\<rparr>"

definition bindEvents :: "'i graph_renderer \<Rightarrow> 'i graph_renderer" where
  "bindEvents s =
     (listen Canvas ''touchend'' OnTouchEnd
      (listen Canvas ''touchmove'' OnTouchMove
      (listen Canvas ''touchstart'' OnTouchStart
      (listen Window ''resize'' ResizeCanvas
      (listen Canvas ''dblclick'' OnDoubleClick
      (listen Canvas ''click'' OnClick
      (listen Canvas ''wheel'' OnWheel
      (listen Canvas ''mouseup'' OnMouseUp
      (listen Canvas ''mousemove'' OnMouseMove
      (listen Canvas ''mousedown'' OnMouseDown s))))))))))"

definition destroy :: "'i graph_renderer \<Rightarrow> 'i graph_renderer" where
  "destroy s =
     (let s1 = stopAnimation s
      in s1\<lparr>listeners := removeEventListener Window ''resize''
                            (Bound ResizeCanvas (nextFunction s1)) (listeners s1),
            nextFunction := nextFunction s1 + 1\<rparr>)"


section \<open>Concrete renderers\<close>

text \<open>
  The instance as the constructor leaves it before \<^verbatim>\<open>init\<close>, on a canvas of the given size
  whose bounding rectangle starts at the origin, in a host whose \<^verbatim>\<open>toLowerCase\<close> is
  \<^term>\<open>lowerLatin1\<close>.
\<close>

definition newRenderer ::
  "'i Note list \<Rightarrow> (string \<Rightarrow> string \<Rightarrow> real) \<Rightarrow> real \<Rightarrow> real \<Rightarrow> real \<Rightarrow> 'i graph_renderer" where
  "newRenderer notes m cw ch dpr =
     \<lparr> nodes = [], edges = [], selectedNode = None, hoveredNode = None,
       isDragging = False, dragNode = None, isPanning = False, lastPanPos = None,
       camera = \<lparr> cam_x = 0, cam_y = 0, zoom = 1 \<rparr>,
       anim_frame = None, running = False, config = default_config,
       noteManager = notes, toLowerCase = lowerLatin1, measureText = m,
       canvas_width = cw, canvas_height = ch, devicePixelRatio = dpr,
       rect_left = 0, rect_top = 0, cursor = ''grab'', ctx = [],
       listeners = [], nextFunction = 0, pendingFrames = [], nextHandle = 0 \<rparr>"

text \<open>A node with the given identifier, title, position and velocity, and no connections.\<close>

definition plainNode :: "nat \<Rightarrow> string \<Rightarrow> real \<Rightarrow> real \<Rightarrow> real \<Rightarrow> real \<Rightarrow> nat node" where
  "plainNode i t px py pvx pvy =
     \<lparr> node_id = i, title = t, content = [], tags = [],
       node_x = px, node_y = py, node_vx = pvx, node_vy = pvy,
       radius = 8, connections = 0,
       node_note = \<lparr> note_id = i, note_title = t, note_content = [], note_tags = [],
                     links = [] \<rparr> \<rparr>"

text \<open>Every character is 7 pixels wide, in every font.\<close>

definition fixedWidth :: "string \<Rightarrow> string \<Rightarrow> real" where
  "fixedWidth font text = 7 * real (length text)"


text \<open>The part of a node that the force passes of the physics step do not write.\<close>

definition placed :: "'i node \<Rightarrow> 'i \<times> real \<times> real \<times> real" where
  "placed n = (node_id n, node_x n, node_y n, radius n)"

text \<open>
  Two nodes, 100 apart, the first one being dragged and at rest; no edges.
\<close>

definition dragState :: "nat graph_renderer" where
  "dragState = (newRenderer [] fixedWidth 800 600 1)
     \<lparr>nodes := [plainNode 1 ''A'' 100 100 0 0, plainNode 2 ''B'' 200 100 0 0],
      isDragging := True, dragNode := Some 0\<rparr>"

text \<open>One node near the top left corner of a canvas of 30 by 30 pixels.\<close>

definition tinyCanvas :: "nat graph_renderer" where
  "tinyCanvas = (newRenderer [] fixedWidth 30 30 1)\<lparr>nodes := [plainNode 1 ''A'' 5 5 0 0]\<rparr>"

text \<open>One node that has left an 800 by 600 canvas on the left and at the bottom.\<close>

definition escaped :: "nat graph_renderer" where
  "escaped = (newRenderer [] fixedWidth 800 600 1)\<lparr>nodes := [plainNode 1 ''A'' 5 700 0 0]\<rparr>"

text \<open>One node without connections, selected.\<close>

definition selectedState :: "nat graph_renderer" where
  "selectedState = (newRenderer [] fixedWidth 800 600 1)
     \<lparr>nodes := [plainNode 1 ''A'' 100 100 0 0], selectedNode := Some 0\<rparr>"

text \<open>The view of an empty note collection, after \<^verbatim>\<open>generateGraph\<close>.\<close>

definition emptyView :: "nat graph_renderer" where
  "emptyView = generateGraph (\<lambda>k. 0) (newRenderer [] fixedWidth 800 600 1)"

text \<open>The same view with its listeners bound and its animation loop started.\<close>

definition startedView :: "nat graph_renderer" where
  "startedView = startAnimation (generateGraph (\<lambda>k. 0)
                   (bindEvents (newRenderer [] fixedWidth 800 600 1)))"

text \<open>The three notes of the scenario: A links to B; B and C share the tag x.\<close>

definition scenarioNotes :: "nat Note list" where
  "scenarioNotes =
     [\<lparr> note_id = 1, note_title = ''A'', note_content = ''see B'', note_tags = [],
         links = [''B''] \<rparr>,
      \<lparr> note_id = 2, note_title = ''B'', note_content = [], note_tags = [''x''],
         links = [] \<rparr>,
      \<lparr> note_id = 3, note_title = ''C'', note_content = [], note_tags = [''x''],
         links = [] \<rparr>]"


definition erase :: "'i node \<Rightarrow> 'i node" where
  "erase n = n\<lparr>node_x := 0, node_y := 0, node_vx := 0, node_vy := 0, radius := 0,
               connections := 0\<rparr>"

text \<open>
  Two states of the link pass over \<open>n\<close> nodes with the same edges, whose nodes differ at most
  in position, velocity, radius and connection count.
\<close>

definition related ::
  "nat \<Rightarrow> 'i node list \<times> 'i edge list \<Rightarrow> 'i node list \<times> 'i edge list \<Rightarrow> bool" where
  "related n st st' \<longleftrightarrow>
     map erase (fst st) = map erase (fst st') \<and> snd st = snd st' \<and> length (fst st) = n"

text \<open>A renderer over the notes of the scenario, before \<^verbatim>\<open>generateGraph\<close>.\<close>

definition scenarioView :: "nat graph_renderer" where
  "scenarioView = newRenderer scenarioNotes fixedWidth 800 600 1"

text \<open>
  Two notes that share the tag x: the first is titled with the capital letter E with acute
  accent (code unit \<open>0xC9\<close>), the second links to it by the small letter (\<open>0xE9\<close>).
\<close>

definition accentNotes :: "nat Note list" where
  "accentNotes =
     [\<lparr> note_id = 1, note_title = [CHR 0xC9], note_content = [], note_tags = [''x''],
         links = [] \<rparr>,
      \<lparr> note_id = 2, note_title = ''N'', note_content = [], note_tags = [''y'', ''x''],
         links = [[CHR 0xE9]] \<rparr>]"

definition accentView :: "nat graph_renderer" where
  "accentView = newRenderer accentNotes fixedWidth 800 600 1"

text \<open>
  Following the spec's words (4.2, step 2): the spring force that one edge exerts on the node
  at position \<open>k\<close>.  The two nodes of the edge are the first nodes with the identifiers of
  its source and its target; when they are at distance \<open>d > 0\<close> the force has the signed
  magnitude \<open>attraction * (d - targetDistance) * strength\<close>, with the target distance
  \<open>maxDistance\<close> for a direct-link edge and \<open>1.5 * maxDistance\<close> for a shared-tag edge; it
  acts on the source along the unit vector towards the target and on the target with the
  opposite sign.  An edge with an endpoint that does not resolve, or with coincident
  endpoints, exerts no force.
\<close>

definition spec_springForce ::
  "physics_config \<Rightarrow> 'i node list \<Rightarrow> 'i edge \<Rightarrow> nat \<Rightarrow> real \<times> real" where
  "spec_springForce ph ns e k =
     (case findNode (\<lambda>n. node_id n = source e) ns of
        None \<Rightarrow> (0, 0)
      | Some i \<Rightarrow>
         (case findNode (\<lambda>n. node_id n = target e) ns of
            None \<Rightarrow> (0, 0)
          | Some j \<Rightarrow>
             (let dx = node_x (ns ! j) - node_x (ns ! i);
                  dy = node_y (ns ! j) - node_y (ns ! i);
                  d = sqrt (dx * dx + dy * dy)
              in if 0 < d then
                   (let targetDistance = (if etype e = Some ''tag'' then 3 / 2 * maxDistance ph
                                          else maxDistance ph);
                        magnitude = attraction ph * (d - targetDistance) * strength e
                    in if k = i then (magnitude * (dx / d), magnitude * (dy / d))
                       else if k = j then (- (magnitude * (dx / d)), - (magnitude * (dy / d)))
                       else (0, 0))
                 else (0, 0))))"

text \<open>
  The view of the two accented notes after \<^verbatim>\<open>generateGraph\<close>, with random values that put
  the two nodes 100 apart.
\<close>

definition linkedView :: "nat graph_renderer" where
  "linkedView = generateGraph (\<lambda>k. if k = 2 then 1 / 8 else 0) accentView"

section \<open>Auxiliary facts\<close>

lemma findNode_Some_iff:
  "findNode P xs = Some k \<longleftrightarrow> k < length xs \<and> P (xs ! k) \<and> (\<forall>i<k. \<not> P (xs ! i))"
proof (induction xs arbitrary: k)
  case Nil
  then show ?case by simp
next
  case (Cons x xs)
  show ?case
  proof (cases "P x")
    case True
    then show ?thesis by (cases k) auto
  next
    case False
    show ?thesis
    proof (cases k)
      case 0
      with False show ?thesis by auto
    next
      case (Suc k')
      have "(\<forall>i<Suc k'. \<not> P ((x # xs) ! i)) \<longleftrightarrow> (\<forall>i<k'. \<not> P (xs ! i))"
        using False by (auto simp: less_Suc_eq_0_disj)
      with False Suc Cons.IH[of k'] show ?thesis by auto
    qed
  qed
qed

lemma findNode_None_iff: "findNode P xs = None \<longleftrightarrow> (\<forall>k<length xs. \<not> P (xs ! k))"
proof (induction xs)
  case Nil
  then show ?case by simp
next
  case (Cons x xs)
  then show ?case by (auto simp: less_Suc_eq_0_disj)
qed

section \<open>Camera zoom under wheel events\<close>

lemma onWheel_zoom:
  "1 / 10 \<le> zoom (camera (onWheel e s)) \<and> zoom (camera (onWheel e s)) \<le> 3"
  by (simp add: onWheel_def Let_def)

text \<open>
  C5.  From a camera zoom in \<open>[0.1, 3]\<close>, any finite sequence of wheel events, zooming in or
  out in any order and at any pointer position, leaves the camera zoom in \<open>[0.1, 3]\<close>.
\<close>

theorem wheel_zoom_in_range:
  assumes "1 / 10 \<le> zoom (camera s)" and "zoom (camera s) \<le> 3"
  shows "1 / 10 \<le> zoom (camera (fold onWheel evs s))
         \<and> zoom (camera (fold onWheel evs s)) \<le> 3"
  using assms
proof (induction evs arbitrary: s)
  case Nil
  then show ?case by simp
next
  case (Cons e evs)
  show ?case using Cons.IH[of "onWheel e s"] onWheel_zoom[of e s] by simp
qed

theorem wheel_zoom_in_range_witness:
  "1 / 10 \<le> zoom (camera (newRenderer ([] :: nat Note list) fixedWidth 800 600 1))
   \<and> zoom (camera (newRenderer ([] :: nat Note list) fixedWidth 800 600 1)) \<le> 3
   \<and> 1 / 10 \<le> zoom (camera (fold onWheel
          (replicate 20 \<lparr>clientX = 10, clientY = 20, deltaY = - 1\<rparr>
           @ [\<lparr>clientX = 30, clientY = 5, deltaY = 1\<rparr>])
          (newRenderer ([] :: nat Note list) fixedWidth 800 600 1)))
   \<and> zoom (camera (fold onWheel
          (replicate 20 \<lparr>clientX = 10, clientY = 20, deltaY = - 1\<rparr>
           @ [\<lparr>clientX = 30, clientY = 5, deltaY = 1\<rparr>])
          (newRenderer ([] :: nat Note list) fixedWidth 800 600 1))) \<le> 3"
proof -
  have h1: "1 / 10 \<le> zoom (camera (newRenderer ([] :: nat Note list) fixedWidth 800 600 1))"
    by (simp add: newRenderer_def)
  have h2: "zoom (camera (newRenderer ([] :: nat Note list) fixedWidth 800 600 1)) \<le> 3"
    by (simp add: newRenderer_def)
  from wheel_zoom_in_range [OF h1 h2] h1 h2 show ?thesis by blast
qed

section \<open>The physics step\<close>

lemma map_update_same: "f y = f (xs ! i) \<Longrightarrow> map f (xs[i := y]) = map f xs"
  by (cases "i < length xs") (auto simp add: list_eq_iff_nth_eq nth_list_update)

lemma placed_repelStep: "map placed (repelStep ph i j ns) = map placed ns"
  by (simp add: repelStep_def Let_def map_update_same placed_def)

lemma placed_springStep: "map placed (springStep ph e ns) = map placed ns"
  by (simp add: springStep_def Let_def map_update_same placed_def split: option.splits)

lemma placed_fold:
  assumes "\<And>a ns. map placed (f a ns) = map placed ns"
  shows "map placed (fold f as ns) = map placed ns"
  by (induction as arbitrary: ns) (simp_all add: assms)

lemma placed_repelPass: "map placed (repelPass ph ns) = map placed ns"
  unfolding repelPass_def
  by (intro placed_fold) (simp add: placed_repelStep)

lemma placed_springPass: "map placed (springPass ph es ns) = map placed ns"
  unfolding springPass_def by (intro placed_fold) (simp add: placed_springStep)

lemma placed_applyForces: "map placed (applyForces s) = map placed (nodes s)"
  by (simp add: applyForces_def placed_springPass placed_repelPass)

lemma length_applyForces: "length (applyForces s) = length (nodes s)"
  using placed_applyForces[of s] by (metis length_map)

lemma placed_nth:
  assumes "map placed ns = map placed ms" and "k < length ms"
  shows "node_id (ns ! k) = node_id (ms ! k)" "node_x (ns ! k) = node_x (ms ! k)"
        "node_y (ns ! k) = node_y (ms ! k)" "radius (ns ! k) = radius (ms ! k)"
proof -
  have l: "length ns = length ms" using assms(1) by (metis length_map)
  have "placed (ns ! k) = placed (ms ! k)"
    using assms l by (metis nth_map)
  then show "node_id (ns ! k) = node_id (ms ! k)" "node_x (ns ! k) = node_x (ms ! k)"
        "node_y (ns ! k) = node_y (ms ! k)" "radius (ns ! k) = radius (ms ! k)"
    by (simp_all add: placed_def)
qed

lemma nth_integratePass:
  "k < length ns \<Longrightarrow>
   integratePass ph w h drag ns ! k = (if Some k = drag then ns ! k else integrateNode ph w h (ns ! k))"
  by (simp add: integratePass_def nth_enumerate_eq)

lemma length_integratePass: "length (integratePass ph w h drag ns) = length ns"
  by (simp add: integratePass_def)

lemma nth_updatePhysics:
  "k < length (nodes s) \<Longrightarrow>
   nodes (updatePhysics s) ! k =
     (if Some k = dragNode s then applyForces s ! k
      else integrateNode (physics (config s)) (canvas_width s / devicePixelRatio s)
             (canvas_height s / devicePixelRatio s) (applyForces s ! k))"
  by (simp add: updatePhysics_def nth_integratePass length_applyForces)

lemma integrateNode_bounds:
  fixes n :: "'i node" and ph w h
  defines "r \<equiv> integrateNode ph w h n"
  shows "radius r = radius n"
    and "node_x r + (radius r + 10) \<le> w"
    and "node_y r + (radius r + 10) \<le> h"
    and "2 * (radius r + 10) \<le> w \<Longrightarrow> 0 \<le> node_x r - (radius r + 10)"
    and "2 * (radius r + 10) \<le> h \<Longrightarrow> 0 \<le> node_y r - (radius r + 10)"
    and "clampFiresX ph w n \<Longrightarrow> node_vx r = 0"
    and "clampFiresY ph h n \<Longrightarrow> node_vy r = 0"
  unfolding r_def
  by (auto simp add: integrateNode_def moveNode_def clampLeft_def clampRight_def clampTop_def
        clampBottom_def clampFiresX_def clampFiresY_def Let_def split: if_splits)

lemma unit_scaled:
  fixes F dx dy :: real
  assumes "d = sqrt (dx * dx + dy * dy)" and "0 < d"
  shows "sqrt (((dx / d) * F) * ((dx / d) * F) + ((dy / d) * F) * ((dy / d) * F)) = \<bar>F\<bar>"
    and "((dx / d) * F) * dx + ((dy / d) * F) * dy = F * d"
proof -
  have "0 \<le> dx * dx + dy * dy" by (simp add: add_nonneg_nonneg)
  then have dd: "d * d = dx * dx + dy * dy" using assms(1) by simp
  have u: "(dx / d) * (dx / d) + (dy / d) * (dy / d) = 1"
  proof -
    have "(dx / d) * (dx / d) + (dy / d) * (dy / d) = (dx * dx + dy * dy) / (d * d)"
      by (simp add: add_divide_distrib)
    also have "\<dots> = 1" using assms(2) by (simp add: dd [symmetric])
    finally show ?thesis .
  qed
  have "((dx / d) * F) * ((dx / d) * F) + ((dy / d) * F) * ((dy / d) * F)
          = F * F * ((dx / d) * (dx / d) + (dy / d) * (dy / d))"
    by algebra
  then have "sqrt (((dx / d) * F) * ((dx / d) * F) + ((dy / d) * F) * ((dy / d) * F)) = sqrt (F * F)"
    using u by simp
  then show "sqrt (((dx / d) * F) * ((dx / d) * F) + ((dy / d) * F) * ((dy / d) * F)) = \<bar>F\<bar>"
    by simp
  have "((dx / d) * F) * dx + ((dy / d) * F) * dy
          = F * d * ((dx / d) * (dx / d) + (dy / d) * (dy / d))"
    using assms(2) by (simp add: field_simps)
  then show "((dx / d) * F) * dx + ((dy / d) * F) * dy = F * d"
    using u by simp
qed

lemma springStep_effect:
  fixes ph :: physics_config
  assumes src: "findNode (\<lambda>n. node_id n = source e) ns = Some i"
      and tgt: "findNode (\<lambda>n. node_id n = target e) ns = Some j"
      and d: "0 < sqrt ((node_x (ns ! j) - node_x (ns ! i)) * (node_x (ns ! j) - node_x (ns ! i))
                        + (node_y (ns ! j) - node_y (ns ! i)) * (node_y (ns ! j) - node_y (ns ! i)))"
  defines "dx \<equiv> node_x (ns ! j) - node_x (ns ! i)"
      and "dy \<equiv> node_y (ns ! j) - node_y (ns ! i)"
  defines "dst \<equiv> sqrt (dx * dx + dy * dy)"
  defines "F \<equiv> attraction ph * (dst - (if etype e = Some ''tag'' then maxDistance ph * (3 / 2) else maxDistance ph)) * strength e"
  shows "i \<noteq> j"
    and "node_vx (springStep ph e ns ! i) = node_vx (ns ! i) + (dx / dst) * F"
    and "node_vy (springStep ph e ns ! i) = node_vy (ns ! i) + (dy / dst) * F"
    and "node_vx (springStep ph e ns ! j) = node_vx (ns ! j) - (dx / dst) * F"
    and "node_vy (springStep ph e ns ! j) = node_vy (ns ! j) - (dy / dst) * F"
proof -
  show ij: "i \<noteq> j" using d by auto
  have li: "i < length ns" and lj: "j < length ns"
    using src tgt by (simp_all add: findNode_Some_iff)
  have dpos: "0 < dst" using d unfolding dst_def dx_def dy_def .
  then have dne: "dst \<noteq> 0" by simp
  have eq: "springStep ph e ns =
      (ns[i := (ns ! i)\<lparr>node_vx := node_vx (ns ! i) + (dx / dst) * F,
                        node_vy := node_vy (ns ! i) + (dy / dst) * F\<rparr>])
        [j := (ns ! j)\<lparr>node_vx := node_vx (ns ! j) - (dx / dst) * F,
                       node_vy := node_vy (ns ! j) - (dy / dst) * F\<rparr>]"
    using src tgt dne ij li lj
    unfolding dst_def dx_def dy_def F_def
    by (simp add: springStep_def Let_def)
  show "node_vx (springStep ph e ns ! i) = node_vx (ns ! i) + (dx / dst) * F"
    "node_vy (springStep ph e ns ! i) = node_vy (ns ! i) + (dy / dst) * F"
    "node_vx (springStep ph e ns ! j) = node_vx (ns ! j) - (dx / dst) * F"
    "node_vy (springStep ph e ns ! j) = node_vy (ns ! j) - (dy / dst) * F"
    using ij li lj by (simp_all add: eq)
qed

lemma sqrt_10000: "sqrt 10000 = 100"
  by (rule real_sqrt_unique) simp_all

section \<open>Dragging\<close>

lemma applyForces_dragState:
  "applyForces dragState
     = [plainNode 1 ''A'' 100 100 (- 1 / 50) 0, plainNode 2 ''B'' 200 100 (1 / 50) 0]"
  by (simp add: dragState_def applyForces_def newRenderer_def default_config_def plainNode_def
        repelPass_def repelStep_def springPass_def Let_def sqrt_10000)

text \<open>
  C4, as stated, fails: the force passes of the physics step write the velocity of every node,
  the dragged one included.  Here the dragged node is at rest before the step and has the
  velocity \<open>(-0.02, 0)\<close> after it.
\<close>

theorem drag_velocity_counterexample:
  "isDragging dragState \<and> dragNode dragState = Some 0
   \<and> node_vx (nodes dragState ! 0) = 0
   \<and> node_vx (nodes (updatePhysics dragState) ! 0) = - 1 / 50"
proof -
  have "nodes (updatePhysics dragState) ! 0 = applyForces dragState ! 0"
    by (simp add: nth_updatePhysics dragState_def)
  then show ?thesis
    by (simp add: applyForces_dragState) (simp add: dragState_def plainNode_def)
qed

text \<open>
  C4, amended.  For the node being dragged, with a positive camera zoom: a drag-move event
  puts it at the pointer position mapped by the inverse camera transform and sets its
  velocity to zero; the physics step leaves its position as it is (its velocity still
  receives the repulsion and spring forces); every other node is integrated.
\<close>

theorem drag_node_position:
  assumes "dragNode s = Some k" and "k < length (nodes s)" and "0 < zoom (camera s)"
  shows "(isDragging s \<longrightarrow>
            node_x (nodes (onMouseMove e s) ! k)
              = (clientX e - rect_left s - cam_x (camera s)) / zoom (camera s)
          \<and> node_y (nodes (onMouseMove e s) ! k)
              = (clientY e - rect_top s - cam_y (camera s)) / zoom (camera s)
          \<and> node_vx (nodes (onMouseMove e s) ! k) = 0
          \<and> node_vy (nodes (onMouseMove e s) ! k) = 0)
       \<and> node_x (nodes (updatePhysics s) ! k) = node_x (nodes s ! k)
       \<and> node_y (nodes (updatePhysics s) ! k) = node_y (nodes s ! k)
       \<and> (\<forall>j<length (nodes s). j \<noteq> k \<longrightarrow>
             nodes (updatePhysics s) ! j =
               integrateNode (physics (config s)) (canvas_width s / devicePixelRatio s)
                 (canvas_height s / devicePixelRatio s) (applyForces s ! j))"
proof -
  have a: "isDragging s \<longrightarrow>
            node_x (nodes (onMouseMove e s) ! k)
              = (clientX e - rect_left s - cam_x (camera s)) / zoom (camera s)
          \<and> node_y (nodes (onMouseMove e s) ! k)
              = (clientY e - rect_top s - cam_y (camera s)) / zoom (camera s)
          \<and> node_vx (nodes (onMouseMove e s) ! k) = 0
          \<and> node_vy (nodes (onMouseMove e s) ! k) = 0"
    using assms(1,2) by (simp add: onMouseMove_def getMousePos_def Let_def)
  have b: "nodes (updatePhysics s) ! k = applyForces s ! k"
    using assms(1,2) by (simp add: nth_updatePhysics)
  have c: "node_x (applyForces s ! k) = node_x (nodes s ! k)"
    "node_y (applyForces s ! k) = node_y (nodes s ! k)"
    using placed_nth [OF placed_applyForces assms(2)] by simp_all
  have d: "\<forall>j<length (nodes s). j \<noteq> k \<longrightarrow>
             nodes (updatePhysics s) ! j =
               integrateNode (physics (config s)) (canvas_width s / devicePixelRatio s)
                 (canvas_height s / devicePixelRatio s) (applyForces s ! j)"
    using assms(1) by (auto simp add: nth_updatePhysics)
  from a b c d show ?thesis by simp
qed

theorem drag_node_position_witness:
  "dragNode dragState = Some 0 \<and> 0 < length (nodes dragState) \<and> 0 < zoom (camera dragState)
   \<and> isDragging dragState
   \<and> node_x (nodes (onMouseMove \<lparr>clientX = 300, clientY = 250, deltaY = 0\<rparr> dragState) ! 0) = 300
   \<and> node_vx (nodes (onMouseMove \<lparr>clientX = 300, clientY = 250, deltaY = 0\<rparr> dragState) ! 0) = 0
   \<and> node_x (nodes (updatePhysics dragState) ! 0) = 100
   \<and> node_y (nodes (updatePhysics dragState) ! 0) = 100
   \<and> 1 < length (nodes dragState)
   \<and> nodes (updatePhysics dragState) ! 1
        = integrateNode (physics (config dragState))
            (canvas_width dragState / devicePixelRatio dragState)
            (canvas_height dragState / devicePixelRatio dragState) (applyForces dragState ! 1)"
proof -
  have h1: "dragNode dragState = Some 0" by (simp add: dragState_def)
  have h2: "0 < length (nodes dragState)" by (simp add: dragState_def)
  have h3: "0 < zoom (camera dragState)" by (simp add: dragState_def newRenderer_def)
  have h4: "isDragging dragState" by (simp add: dragState_def)
  have h5: "1 < length (nodes dragState)" by (simp add: dragState_def)
  have v: "rect_left dragState = 0" "cam_x (camera dragState) = 0" "zoom (camera dragState) = 1"
    "node_x (nodes dragState ! 0) = 100" "node_y (nodes dragState ! 0) = 100"
    by (simp_all add: dragState_def newRenderer_def plainNode_def)
  from drag_node_position [OF h1 h2 h3, of "\<lparr>clientX = 300, clientY = 250, deltaY = 0\<rparr>"]
       h1 h2 h3 h4 h5
  show ?thesis by (simp add: v)
qed

section \<open>The canvas boundary\<close>

text \<open>
  C6, as stated, fails on a canvas narrower than twice the margin of a node: the right clamp
  runs after the left one and wins.  On a canvas of 30 pixels a node of radius 8 ends at
  \<open>x = 12\<close>, and \<open>x - (radius + 10)\<close> is negative.
\<close>

theorem physics_boundary_counterexample:
  "0 < length (nodes tinyCanvas) \<and> dragNode tinyCanvas \<noteq> Some 0
   \<and> canvas_width tinyCanvas / devicePixelRatio tinyCanvas = 30
   \<and> node_x (nodes (updatePhysics tinyCanvas) ! 0) = 12
   \<and> radius (nodes (updatePhysics tinyCanvas) ! 0) = 8
   \<and> node_x (nodes (updatePhysics tinyCanvas) ! 0)
        - (radius (nodes (updatePhysics tinyCanvas) ! 0) + 10) < 0"
  by (simp add: tinyCanvas_def updatePhysics_def applyForces_def newRenderer_def
        default_config_def plainNode_def repelPass_def repelStep_def springPass_def Let_def
        integratePass_def integrateNode_def moveNode_def clampLeft_def clampRight_def
        clampTop_def clampBottom_def)

text \<open>
  C6, amended.  After a physics step every node other than the dragged one satisfies
  \<open>x + radius + 10 \<le> canvasWidth\<close> and \<open>y + radius + 10 \<le> canvasHeight\<close>; on an axis on
  which the canvas is at least \<open>2 * (radius + 10)\<close> long also \<open>0 \<le> x - (radius + 10)\<close>
  (respectively \<open>y\<close>); and on an axis on which a clamp fired during the step the velocity
  component is zero.
\<close>

theorem physics_boundary:
  assumes "k < length (nodes s)" and "dragNode s \<noteq> Some k" and "0 < devicePixelRatio s"
  shows "let n' = nodes (updatePhysics s) ! k;
             canvasWidth = canvas_width s / devicePixelRatio s;
             canvasHeight = canvas_height s / devicePixelRatio s;
             margin = radius n' + 10
         in node_x n' + margin \<le> canvasWidth
            \<and> node_y n' + margin \<le> canvasHeight
            \<and> (2 * margin \<le> canvasWidth \<longrightarrow> 0 \<le> node_x n' - margin)
            \<and> (2 * margin \<le> canvasHeight \<longrightarrow> 0 \<le> node_y n' - margin)
            \<and> (clampFiresX (physics (config s)) canvasWidth (applyForces s ! k)
                 \<longrightarrow> node_vx n' = 0)
            \<and> (clampFiresY (physics (config s)) canvasHeight (applyForces s ! k)
                 \<longrightarrow> node_vy n' = 0)"
proof -
  have "nodes (updatePhysics s) ! k
          = integrateNode (physics (config s)) (canvas_width s / devicePixelRatio s)
              (canvas_height s / devicePixelRatio s) (applyForces s ! k)"
    using assms(1,2) by (auto simp add: nth_updatePhysics)
  then show ?thesis
    unfolding Let_def using integrateNode_bounds(2-7) by metis
qed

lemma applyForces_escaped: "applyForces escaped = nodes escaped"
  by (simp add: escaped_def applyForces_def newRenderer_def repelPass_def repelStep_def
        springPass_def)

theorem physics_boundary_witness:
  "0 < length (nodes escaped) \<and> dragNode escaped \<noteq> Some 0 \<and> 0 < devicePixelRatio escaped
   \<and> 2 * (radius (nodes (updatePhysics escaped) ! 0) + 10)
        \<le> canvas_width escaped / devicePixelRatio escaped
   \<and> 2 * (radius (nodes (updatePhysics escaped) ! 0) + 10)
        \<le> canvas_height escaped / devicePixelRatio escaped
   \<and> clampFiresX (physics (config escaped)) (canvas_width escaped / devicePixelRatio escaped)
        (applyForces escaped ! 0)
   \<and> clampFiresY (physics (config escaped)) (canvas_height escaped / devicePixelRatio escaped)
        (applyForces escaped ! 0)
   \<and> node_x (nodes (updatePhysics escaped) ! 0) + 18 \<le> 800
   \<and> node_y (nodes (updatePhysics escaped) ! 0) + 18 \<le> 600
   \<and> 0 \<le> node_x (nodes (updatePhysics escaped) ! 0) - 18
   \<and> 0 \<le> node_y (nodes (updatePhysics escaped) ! 0) - 18
   \<and> node_vx (nodes (updatePhysics escaped) ! 0) = 0
   \<and> node_vy (nodes (updatePhysics escaped) ! 0) = 0"
proof -
  have h1: "0 < length (nodes escaped)" by (simp add: escaped_def)
  have h2: "dragNode escaped \<noteq> Some 0" by (simp add: escaped_def newRenderer_def)
  have h3: "0 < devicePixelRatio escaped" by (simp add: escaped_def newRenderer_def)
  have "nodes (updatePhysics escaped) ! 0
          = integrateNode (physics (config escaped))
              (canvas_width escaped / devicePixelRatio escaped)
              (canvas_height escaped / devicePixelRatio escaped) (applyForces escaped ! 0)"
    using h1 h2 by (simp add: nth_updatePhysics)
  then have "radius (nodes (updatePhysics escaped) ! 0) = radius (nodes escaped ! 0)"
    by (simp add: integrateNode_bounds(1) applyForces_escaped)
  then have r: "radius (nodes (updatePhysics escaped) ! 0) = 8"
    by (simp add: escaped_def plainNode_def)
  have dims: "canvas_width escaped / devicePixelRatio escaped = 800"
    "canvas_height escaped / devicePixelRatio escaped = 600"
    by (simp_all add: escaped_def newRenderer_def)
  have fx: "clampFiresX (physics (config escaped)) 800 (applyForces escaped ! 0)"
    by (simp add: applyForces_escaped)
       (simp add: escaped_def newRenderer_def plainNode_def clampFiresX_def moveNode_def Let_def)
  have fy: "clampFiresY (physics (config escaped)) 600 (applyForces escaped ! 0)"
    by (simp add: applyForces_escaped)
       (simp add: escaped_def newRenderer_def plainNode_def clampFiresY_def moveNode_def Let_def
          clampTop_def)
  from physics_boundary [OF h1 h2 h3] h1 h2 h3 fx fy show ?thesis
    by (simp add: Let_def r dims)
qed

section \<open>The hit test\<close>

text \<open>
  C10.  With a positive camera zoom, the hit test maps the pointer through the inverse camera
  transform and returns the first node, in the order of the node array, whose centre is
  within that node's \<open>radius\<close> field; it returns nothing exactly when no node is.  The result
  does not depend on which node is selected or hovered: the radii 12 and 10 with which
  \<^term>\<open>renderNode\<close> draws such nodes (\<^term>\<open>drawnRadius\<close>) do not enter the test.  In the
  instance that follows the theorem a selected node of radius 8 is drawn with radius 12; a
  point at distance 10 from its centre hits nothing, a point at distance 5 hits it.
\<close>

theorem hit_test_first_match:
  fixes s :: "'i graph_renderer"
  assumes "0 < zoom (camera s)"
  shows "let transformedX = (px - cam_x (camera s)) / zoom (camera s);
             transformedY = (py - cam_y (camera s)) / zoom (camera s);
             distance = (\<lambda>n. sqrt ((transformedX - node_x n) * (transformedX - node_x n)
                                  + (transformedY - node_y n) * (transformedY - node_y n)))
         in (getNodeAt s px py = Some k \<longleftrightarrow>
               k < length (nodes s) \<and> distance (nodes s ! k) \<le> radius (nodes s ! k)
               \<and> (\<forall>i<k. radius (nodes s ! i) < distance (nodes s ! i)))
            \<and> (getNodeAt s px py = None \<longleftrightarrow>
                 (\<forall>i<length (nodes s). radius (nodes s ! i) < distance (nodes s ! i)))
            \<and> getNodeAt (s\<lparr>selectedNode := sel, hoveredNode := hov\<rparr>) px py
                 = getNodeAt s px py"
proof -
  define hit :: "'i node \<Rightarrow> bool" where "hit = (\<lambda>n. sqrt (((px - cam_x (camera s)) / zoom (camera s) - node_x n)
                                    * ((px - cam_x (camera s)) / zoom (camera s) - node_x n)
                                  + ((py - cam_y (camera s)) / zoom (camera s) - node_y n)
                                    * ((py - cam_y (camera s)) / zoom (camera s) - node_y n))
                             \<le> radius n)"
  have g: "getNodeAt s px py = findNode hit (nodes s)"
    by (simp add: getNodeAt_def hit_def Let_def)
  have first: "getNodeAt s px py = Some k \<longleftrightarrow>
                 k < length (nodes s) \<and> hit (nodes s ! k) \<and> (\<forall>i<k. \<not> hit (nodes s ! i))"
    unfolding g by (rule findNode_Some_iff)
  have none: "getNodeAt s px py = None \<longleftrightarrow> (\<forall>i<length (nodes s). \<not> hit (nodes s ! i))"
    unfolding g by (rule findNode_None_iff)
  have same: "getNodeAt (s\<lparr>selectedNode := sel, hoveredNode := hov\<rparr>) px py
                = getNodeAt s px py"
    by (simp add: getNodeAt_def)
  from first none same show ?thesis
    unfolding hit_def Let_def not_le [symmetric] by blast
qed

theorem hit_test_first_match_witness:
  "0 < zoom (camera selectedState)
   \<and> selectedNode selectedState = Some 0
   \<and> radius (nodes selectedState ! 0) = 8
   \<and> drawnRadius (config selectedState) True False (nodes selectedState ! 0) = 12
   \<and> getNodeAt selectedState 110 100 = None
   \<and> getNodeAt selectedState 105 100 = Some 0"
proof -
  have h: "0 < zoom (camera selectedState)" by (simp add: selectedState_def newRenderer_def)
  from hit_test_first_match [OF h, of 110 100 0 None None]
       hit_test_first_match [OF h, of 105 100 0 None None] h
  show ?thesis
    by (simp add: Let_def selectedState_def newRenderer_def plainNode_def drawnRadius_def
          default_config_def)
qed

section \<open>The frame of an empty graph\<close>

lemma showNat_0: "showNat 0 = ''0''"
  by (simp add: showNat.simps)

lemma showNat_100: "showNat 100 = ''100''"
  by (simp add: showNat.simps)

lemma emptyView_nodes: "nodes emptyView = []" "edges emptyView = []"
  by (simp_all add: emptyView_def generateGraph_def newRenderer_def Let_def)

lemma renderOps_modular_empty:
  "nodes s = [] \<Longrightarrow>
   renderOps_modular s
     = ClearRect 0 0 (canvas_width s / devicePixelRatio s) (canvas_height s / devicePixelRatio s)
         # renderEmptyState s"
  by (simp add: renderOps_modular_def Let_def)

text \<open>
  C7.  The render pass of the monolithic class has no test for the empty node set.  On the
  800 by 600 view of an empty note collection it clears the surface, applies and restores the
  camera transform, and draws the three lines of statistics; the two-line message, which
  \<^verbatim>\<open>generateGraph\<close> drew once, is not drawn again after the surface is cleared.  The render
  pass of the modular class on the same view clears the surface, draws the message and
  returns.
\<close>

theorem render_empty_draws_statistics:
  "nodes emptyView = []
   \<and> renderOps emptyView
       = [ClearRect 0 0 800 600, Save, Translate 0 0, Scale 1 1, Restore,
          SetFillStyle ''#64748b'', SetFont ''14px Inter, sans-serif'',
          SetTextAlign ''left'', SetTextBaseline ''top'',
          FillText ''Notes: 0'' 16 16, FillText ''Connections: 0'' 16 36,
          FillText ''Zoom: 100%'' 16 56]
   \<and> renderOps_modular emptyView
       = [ClearRect 0 0 800 600,
          SetFillStyle ''#64748b'', SetFont ''18px Inter, sans-serif'',
          SetTextAlign ''center'', SetTextBaseline ''middle'',
          FillText ''No notes to visualize'' 400 280,
          SetFont ''14px Inter, sans-serif'',
          FillText ''Create some notes and link them to see the graph'' 400 310]"
  by (simp add: emptyView_def generateGraph_def newRenderer_def Let_def renderOps_def
        renderOps_modular_def renderEdges_def renderNodes_def renderUI_def renderEmptyState_def
        showNat_0 showNat_100 showInt_def mathRound_def enumerate_eq_zip)

section \<open>Tearing the view down\<close>

lemma listeners_animate [simp]: "listeners (animate s) = listeners s"
  by (simp add: animate_def requestAnimationFrame_def render_def updatePhysics_def Let_def)

lemma listeners_stopAnimation [simp]: "listeners (stopAnimation s) = listeners s"
  by (simp add: stopAnimation_def cancelAnimationFrame_def Let_def split: option.splits)

lemma running_stopAnimation [simp]: "running (stopAnimation s) = False"
  by (simp add: stopAnimation_def cancelAnimationFrame_def Let_def split: option.splits)

lemma removeAll_only: "\<forall>x\<in>set xs. x = h \<Longrightarrow> removeAll h xs = []"
  by (induction xs) auto

lemma pending_stopAnimation:
  assumes "\<forall>h\<in>set (pendingFrames s). anim_frame s = Some h \<and> h \<noteq> 0"
  shows "pendingFrames (stopAnimation s) = []"
proof (cases "anim_frame s")
  case None
  with assms have "pendingFrames s = []" by (cases "pendingFrames s") auto
  then show ?thesis using None by (simp add: stopAnimation_def Let_def)
next
  case (Some h)
  show ?thesis
  proof (cases "h = 0")
    case True
    with assms Some have "pendingFrames s = []" by (cases "pendingFrames s") auto
    then show ?thesis using Some True by (simp add: stopAnimation_def Let_def)
  next
    case False
    from assms Some have "\<forall>x\<in>set (pendingFrames s). x = h" by auto
    then have "removeAll h (pendingFrames s) = []"
      by (rule removeAll_only)
    then show ?thesis using Some False
      by (simp add: stopAnimation_def cancelAnimationFrame_def Let_def)
  qed
qed

lemma frames_startAnimation:
  assumes "pendingFrames s = []"
  shows "\<forall>h\<in>set (pendingFrames (startAnimation s)).
           anim_frame (startAnimation s) = Some h \<and> h \<noteq> 0"
  using assms
  by (simp add: startAnimation_def animate_def requestAnimationFrame_def render_def
        updatePhysics_def Let_def)

lemma frames_runFrame:
  assumes "\<forall>h\<in>set (pendingFrames s). anim_frame s = Some h \<and> h \<noteq> 0"
  shows "\<forall>h'\<in>set (pendingFrames (runFrame h s)).
           anim_frame (runFrame h s) = Some h' \<and> h' \<noteq> 0"
proof (cases "h \<in> set (pendingFrames s)")
  case False
  then show ?thesis using assms by (simp add: runFrame_def)
next
  case True
  with assms have "\<forall>x\<in>set (pendingFrames s). x = h" by (metis option.inject)
  then have "removeAll h (pendingFrames s) = []" by (rule removeAll_only)
  then show ?thesis using True
    by (simp add: runFrame_def animate_def requestAnimationFrame_def render_def
          updatePhysics_def Let_def)
qed

lemma startedView_frames:
  "pendingFrames startedView = [1]" "anim_frame startedView = Some 1" "running startedView"
  by (simp_all add: startedView_def startAnimation_def animate_def requestAnimationFrame_def
        render_def updatePhysics_def generateGraph_def bindEvents_def listen_def
        newRenderer_def default_config_def Let_def)

lemma startedView_listeners:
  "listeners startedView =
     [\<lparr>l_target = Canvas, l_type = ''mousedown'', l_callback = Bound OnMouseDown 0\<rparr>,
      \<lparr>l_target = Canvas, l_type = ''mousemove'', l_callback = Bound OnMouseMove 1\<rparr>,
      \<lparr>l_target = Canvas, l_type = ''mouseup'', l_callback = Bound OnMouseUp 2\<rparr>,
      \<lparr>l_target = Canvas, l_type = ''wheel'', l_callback = Bound OnWheel 3\<rparr>,
      \<lparr>l_target = Canvas, l_type = ''click'', l_callback = Bound OnClick 4\<rparr>,
      \<lparr>l_target = Canvas, l_type = ''dblclick'', l_callback = Bound OnDoubleClick 5\<rparr>,
      \<lparr>l_target = Window, l_type = ''resize'', l_callback = Bound ResizeCanvas 6\<rparr>,
      \<lparr>l_target = Canvas, l_type = ''touchstart'', l_callback = Bound OnTouchStart 7\<rparr>,
      \<lparr>l_target = Canvas, l_type = ''touchmove'', l_callback = Bound OnTouchMove 8\<rparr>,
      \<lparr>l_target = Canvas, l_type = ''touchend'', l_callback = Bound OnTouchEnd 9\<rparr>]"
  "nextFunction startedView = 10"
  by (simp_all add: startedView_def startAnimation_def animate_def requestAnimationFrame_def
        render_def updatePhysics_def generateGraph_def bindEvents_def
        listen_def addEventListener_def newRenderer_def default_config_def Let_def
        eval_nat_numeral)

text \<open>
  The part of \<^verbatim>\<open>destroy\<close> that stops the animation loop works: when the frame requests
  still pending are the one recorded in \<^verbatim>\<open>animation.frame\<close> (which \<^verbatim>\<open>startAnimation\<close>
  establishes and every tick keeps), the running flag is false and nothing is pending after
  \<^verbatim>\<open>destroy\<close>, and a tick that did run would return at once.
\<close>

lemma destroy_stops_loop:
  assumes "\<forall>h\<in>set (pendingFrames s). anim_frame s = Some h \<and> h \<noteq> 0"
  shows "running (destroy s) = False
         \<and> pendingFrames (destroy s) = []
         \<and> animate (destroy s) = destroy s
         \<and> runFrame h (destroy s) = destroy s"
proof -
  have r: "running (destroy s) = False" by (simp add: destroy_def Let_def)
  have p: "pendingFrames (destroy s) = []"
    using pending_stopAnimation [OF assms] by (simp add: destroy_def Let_def)
  have a: "animate (destroy s) = destroy s" using r by (simp add: animate_def)
  have f: "runFrame h (destroy s) = destroy s" using p by (simp add: runFrame_def)
  from r p a f show ?thesis by simp
qed

text \<open>
  C8.  \<^verbatim>\<open>destroy\<close> is to stop the animation loop and to detach the listeners the instance
  registered (resize, pointer, wheel, touch).  On the view of an empty note collection, with
  its ten listeners bound and its loop started, it stops the loop (the flag is false, nothing
  is pending) and detaches nothing: its one removal names the function object of a new
  \<^verbatim>\<open>bind\<close>, the eleventh, where the resize listener was registered with the seventh, and the
  nine listeners of the canvas are not removed at all.  All ten listeners are still registered
  afterwards.
\<close>

theorem destroy_keeps_listeners:
  "running startedView \<and> pendingFrames startedView = [1]
   \<and> running (destroy startedView) = False
   \<and> pendingFrames (destroy startedView) = []
   \<and> removeEventListener Window ''resize'' (Bound ResizeCanvas 10) (listeners startedView)
       = listeners startedView
   \<and> nextFunction (destroy startedView) = 11
   \<and> listeners (destroy startedView)
       = [\<lparr>l_target = Canvas, l_type = ''mousedown'', l_callback = Bound OnMouseDown 0\<rparr>,
          \<lparr>l_target = Canvas, l_type = ''mousemove'', l_callback = Bound OnMouseMove 1\<rparr>,
          \<lparr>l_target = Canvas, l_type = ''mouseup'', l_callback = Bound OnMouseUp 2\<rparr>,
          \<lparr>l_target = Canvas, l_type = ''wheel'', l_callback = Bound OnWheel 3\<rparr>,
          \<lparr>l_target = Canvas, l_type = ''click'', l_callback = Bound OnClick 4\<rparr>,
          \<lparr>l_target = Canvas, l_type = ''dblclick'', l_callback = Bound OnDoubleClick 5\<rparr>,
          \<lparr>l_target = Window, l_type = ''resize'', l_callback = Bound ResizeCanvas 6\<rparr>,
          \<lparr>l_target = Canvas, l_type = ''touchstart'', l_callback = Bound OnTouchStart 7\<rparr>,
          \<lparr>l_target = Canvas, l_type = ''touchmove'', l_callback = Bound OnTouchMove 8\<rparr>,
          \<lparr>l_target = Canvas, l_type = ''touchend'', l_callback = Bound OnTouchEnd 9\<rparr>]"
proof -
  have st: "stopAnimation startedView = startedView\<lparr>running := False, pendingFrames := []\<rparr>"
    by (simp add: stopAnimation_def cancelAnimationFrame_def startedView_frames Let_def)
  have rm: "removeEventListener Window ''resize'' (Bound ResizeCanvas 10) (listeners startedView)
              = listeners startedView"
    by (simp add: removeEventListener_def startedView_listeners)
  have "destroy startedView
          = startedView\<lparr>running := False, pendingFrames := [],
                         listeners := listeners startedView, nextFunction := 11\<rparr>"
    using rm by (simp add: destroy_def Let_def st startedView_listeners(2))
  then show ?thesis
    using rm by (simp add: startedView_frames startedView_listeners)
qed

section \<open>The graph of a note collection\<close>

subsection \<open>Folds\<close>

lemma fold_invariant:
  assumes "\<And>x s. x \<in> set xs \<Longrightarrow> P s \<Longrightarrow> P (f x s)" and "P s"
  shows "P (fold f xs s)"
  using assms by (induction xs arbitrary: s) auto


lemma fold_related:
  assumes "\<And>x s s'. x \<in> set xs \<Longrightarrow> R s s' \<Longrightarrow> R (f x s) (g x s')" and "R s s'"
  shows "R (fold f xs s) (fold g xs s')"
  using assms by (induction xs arbitrary: s s') auto

lemma lower_AB:
  "lowerLatin1 ''A'' \<noteq> lowerLatin1 ''B''" "lowerLatin1 ''C'' \<noteq> lowerLatin1 ''B''"
  by code_simp+

lemma lower_accent:
  "lowerLatin1 [CHR 0xC9] = lowerLatin1 [CHR 0xE9]" "lowerLatin1 ''N'' \<noteq> lowerLatin1 [CHR 0xE9]"
  by code_simp+

lemma findNode_map: "findNode P (map f xs) = findNode (\<lambda>x. P (f x)) xs"
  by (induction xs) auto

subsection \<open>Edges\<close>



subsection \<open>The link pass\<close>

lemma erase_fields [simp]:
  "node_id (erase n) = node_id n" "title (erase n) = title n" "tags (erase n) = tags n"
  "node_note (erase n) = node_note n" "erase (erase n) = erase n"
  "erase (n\<lparr>connections := c\<rparr>) = erase n"
  by (simp_all add: erase_def)

lemma erase_nth:
  assumes "map erase ns = map erase ms" and "i < length ns"
  shows "node_id (ns ! i) = node_id (ms ! i)" "title (ns ! i) = title (ms ! i)"
    "tags (ns ! i) = tags (ms ! i)" "node_note (ns ! i) = node_note (ms ! i)"
proof -
  have l: "length ms = length ns" using assms(1) by (metis length_map)
  have "erase (ns ! i) = erase (ms ! i)" using assms l by (metis nth_map)
  then have "node_id (erase (ns ! i)) = node_id (erase (ms ! i))"
    "title (erase (ns ! i)) = title (erase (ms ! i))"
    "tags (erase (ns ! i)) = tags (erase (ms ! i))"
    "node_note (erase (ns ! i)) = node_note (erase (ms ! i))" by simp_all
  then show "node_id (ns ! i) = node_id (ms ! i)" "title (ns ! i) = title (ms ! i)"
    "tags (ns ! i) = tags (ms ! i)" "node_note (ns ! i) = node_note (ms ! i)"
    by simp_all
qed

lemma findNode_title_erase:
  assumes "map erase ns = map erase ms"
  shows "findNode (\<lambda>n. lc (title n) = t) ns = findNode (\<lambda>n. lc (title n) = t) ms"
proof -
  have "findNode (\<lambda>n. lc (title n) = t) (map erase ns)
          = findNode (\<lambda>n. lc (title n) = t) (map erase ms)"
    using assms by simp
  then show ?thesis by (simp add: findNode_map)
qed

lemma linkStep_erase: "map erase (fst (linkStep lc i t st)) = map erase (fst st)"
  by (simp add: linkStep_def Let_def map_update_same split: option.splits)

lemma linkStep_length: "length (fst (linkStep lc i t st)) = length (fst st)"
  using linkStep_erase [of lc i t st] by (metis length_map)






text \<open>What holds of the state of the link pass throughout.\<close>

lemma linkNode_erase: "map erase (fst (linkNode lc i st)) = map erase (fst st)"
  unfolding linkNode_def
  by (rule fold_invariant [where P = "\<lambda>s. map erase (fst s) = map erase (fst st)"])
     (simp_all add: linkStep_erase)





lemma linkPass_erase: "map erase (fst (linkPass lc ns)) = map erase ns"
  unfolding linkPass_def
  by (rule fold_invariant [where P = "\<lambda>s. map erase (fst s) = map erase ns"])
     (simp_all add: linkNode_erase)




subsection \<open>The tag pass\<close>








lemma tagStep_erase: "tagStep (erase a) (erase b) = tagStep a b"
  by (rule ext) (simp add: tagStep_def Let_def split: option.splits)

lemma tagPass_erase: "tagPass (map erase ns) es = tagPass ns es"
  by (simp add: tagPass_def fold_map comp_def tagStep_erase)

subsection \<open>Edges do not depend on positions\<close>

lemma linkStep_related:
  assumes same: "map erase (fst st) = map erase (fst st')" and es: "snd st = snd st'"
      and i: "i < length (fst st)"
  shows "snd (linkStep lc i t st) = snd (linkStep lc i t st')"
proof -
  have len: "length (fst st') = length (fst st)" using same by (metis length_map)
  have f: "findNode (\<lambda>n. lc (title n) = lc t) (fst st)
            = findNode (\<lambda>n. lc (title n) = lc t) (fst st')"
    by (rule findNode_title_erase [OF same])
  have idi: "node_id (fst st ! i) = node_id (fst st' ! i)"
    by (rule erase_nth(1) [OF same i])
  show ?thesis
  proof (cases "findNode (\<lambda>n. lc (title n) = lc t) (fst st)")
    case None
    then show ?thesis using f es by (simp add: linkStep_def Let_def)
  next
    case (Some j)
    then have "j < length (fst st)" by (simp add: findNode_Some_iff)
    then have idj: "node_id (fst st ! j) = node_id (fst st' ! j)"
      by (rule erase_nth(1) [OF same])
    show ?thesis using Some f es idi idj
      by (simp add: linkStep_def Let_def split: option.splits)
  qed
qed

lemma related_linkStep:
  assumes "related n st st'" and "i < n"
  shows "related n (linkStep lc i t st) (linkStep lc i t st')"
  using assms linkStep_related [of st st' i lc t]
  by (simp add: related_def linkStep_erase linkStep_length)

lemma related_linkNode:
  assumes r: "related n st st'" and i: "i < n"
  shows "related n (linkNode lc i st) (linkNode lc i st')"
proof -
  have eq: "node_note (fst st' ! i) = node_note (fst st ! i)"
    using r i erase_nth(4) [of "fst st" "fst st'" i] by (simp add: related_def)
  have "related n (fold (linkStep lc i) ts st) (fold (linkStep lc i) ts st')" for ts
  proof (rule fold_related [where R = "related n"])
    show "\<And>x s s'. related n s s' \<Longrightarrow> related n (linkStep lc i x s) (linkStep lc i x s')"
      using i by (simp add: related_linkStep)
    show "related n st st'" by (rule r)
  qed
  then show ?thesis by (simp add: linkNode_def eq)
qed

lemma linkPass_edges_erase:
  assumes "map erase ns = map erase ms"
  shows "snd (linkPass lc ns) = snd (linkPass lc ms)"
proof -
  have len: "length ms = length ns" using assms by (metis length_map)
  have "related (length ns) (fold (linkNode lc) [0..<length ns] (ns, []))
          (fold (linkNode lc) [0..<length ns] (ms, []))"
  proof (rule fold_related [where R = "related (length ns)"])
    show "\<And>x s s'. x \<in> set [0..<length ns] \<Longrightarrow> related (length ns) s s' \<Longrightarrow>
            related (length ns) (linkNode lc x s) (linkNode lc x s')"
      by (simp add: related_linkNode)
    show "related (length ns) (ns, []) (ms, [])"
      using assms by (simp add: related_def)
  qed
  then show ?thesis by (simp add: linkPass_def len related_def)
qed

lemma map_enumerate_ignore:
  assumes "\<And>i x. f i x = g x"
  shows "map (\<lambda>(i, x). f i x) (enumerate k xs) = map g xs"
  by (induction xs arbitrary: k) (simp_all add: assms)

lemma erase_createNode:
  "erase (createNode cfg cw ch dpr rnd i n) = erase (createNode cfg' cw' ch' dpr' rnd' i' n)"
  by (simp add: erase_def createNode_def)

lemma erase_createNodes:
  "map erase (createNodes cfg cw ch dpr rnd notes)
     = map (\<lambda>n. erase (createNode cfg cw ch dpr rnd 0 n)) notes"
proof -
  have "map erase (createNodes cfg cw ch dpr rnd notes)
          = map (\<lambda>(i, n). erase (createNode cfg cw ch dpr rnd i n)) (enumerate 0 notes)"
    by (simp add: createNodes_def comp_def case_prod_unfold)
  also have "\<dots> = map (\<lambda>n. erase (createNode cfg cw ch dpr rnd 0 n)) notes"
    by (rule map_enumerate_ignore) (rule erase_createNode)
  finally show ?thesis .
qed

lemma erase_createNodes_eq:
  "map erase (createNodes cfg cw ch dpr rnd notes)
     = map erase (createNodes cfg' cw' ch' dpr' rnd' notes)"
  unfolding erase_createNodes
  by (rule map_cong [OF refl]) (rule erase_createNode)


lemma createNodes_length [simp]: "length (createNodes cfg cw ch dpr rnd notes) = length notes"
  by (simp add: createNodes_def)


lemma generateGraph_edges:
  "edges (generateGraph rnd s)
     = (if length (noteManager s) = 0 then []
        else tagPass
               (fst (linkPass (toLowerCase s) (createNodes (config s) (canvas_width s) (canvas_height s)
                                (devicePixelRatio s) rnd (noteManager s))))
               (snd (linkPass (toLowerCase s) (createNodes (config s) (canvas_width s) (canvas_height s)
                                (devicePixelRatio s) rnd (noteManager s)))))"
  by (simp add: generateGraph_def Let_def)

lemma generateGraph_noteManager [simp]: "noteManager (generateGraph rnd s) = noteManager s"
  by (simp add: generateGraph_def Let_def)

lemma generateGraph_toLowerCase [simp]: "toLowerCase (generateGraph rnd s) = toLowerCase s"
  by (simp add: generateGraph_def Let_def)

lemma edges_of_notes:
  assumes "noteManager s = noteManager s'" and "toLowerCase s = toLowerCase s'"
  shows "edges (generateGraph rnd s) = edges (generateGraph rnd' s')"
proof -
  let ?ns = "createNodes (config s) (canvas_width s) (canvas_height s)
               (devicePixelRatio s) rnd (noteManager s)"
  let ?ms = "createNodes (config s') (canvas_width s') (canvas_height s')
               (devicePixelRatio s') rnd' (noteManager s)"
  have e: "map erase ?ns = map erase ?ms" by (rule erase_createNodes_eq)
  have l: "snd (linkPass (toLowerCase s) ?ns) = snd (linkPass (toLowerCase s) ?ms)" by (rule linkPass_edges_erase [OF e])
  have "map erase (fst (linkPass (toLowerCase s) ?ns)) = map erase (fst (linkPass (toLowerCase s) ?ms))"
    using e by (simp add: linkPass_erase)
  then have "tagPass (fst (linkPass (toLowerCase s) ?ns)) (snd (linkPass (toLowerCase s) ?ns))
               = tagPass (fst (linkPass (toLowerCase s) ?ms)) (snd (linkPass (toLowerCase s) ?ns))"
    by (metis tagPass_erase)
  with l show ?thesis using assms by (simp add: generateGraph_edges)
qed



text \<open>
  C9.  Two calls of \<^verbatim>\<open>refresh\<close> in a row, with the note collection unchanged, give the same
  list of edges (same endpoints, same kinds, same order), whatever random positions each call
  draws.
\<close>

theorem refresh_same_edges:
  "edges (refresh rnd' (refresh rnd s)) = edges (refresh rnd s)"
  unfolding refresh_def by (rule edges_of_notes) simp_all

section \<open>The scenario of three notes\<close>

lemma connections_centerGraph:
  "map connections (centerGraph cw ch dpr ns) = map connections ns"
  "map node_id (centerGraph cw ch dpr ns) = map node_id ns"
  by (simp_all add: centerGraph_def Let_def comp_def)

lemma connections_adjustRadius:
  "connections \<circ> adjustRadius cfg = connections"
  "node_id \<circ> adjustRadius cfg = node_id"
  by (simp_all add: adjustRadius_def comp_def)

lemma scenario_linkPass:
  "snd (linkPass lowerLatin1 (createNodes cfg cw ch dpr rnd scenarioNotes))
     = [\<lparr> source = 1, target = 2, strength = 1, etype = None, commonTags = None \<rparr>]"
  "map connections (fst (linkPass lowerLatin1 (createNodes cfg cw ch dpr rnd scenarioNotes))) = [1, 1, 0]"
  "map node_id (fst (linkPass lowerLatin1 (createNodes cfg cw ch dpr rnd scenarioNotes))) = [1, 2, 3]"
  "map tags (fst (linkPass lowerLatin1 (createNodes cfg cw ch dpr rnd scenarioNotes))) = [[], [''x''], [''x'']]"
  by (simp_all add: scenarioNotes_def createNodes_def createNode_def linkPass_def linkNode_def
        linkStep_def existingEdge_def lower_AB Let_def upt_rec [of 0] eval_nat_numeral)

lemma scenario_tagPass:
  "tagPass (fst (linkPass lowerLatin1 (createNodes cfg cw ch dpr rnd scenarioNotes)))
           (snd (linkPass lowerLatin1 (createNodes cfg cw ch dpr rnd scenarioNotes)))
     = [\<lparr> source = 1, target = 2, strength = 1, etype = None, commonTags = None \<rparr>,
        \<lparr> source = 2, target = 3, strength = 3 / 10, etype = Some ''tag'',
          commonTags = Some [''x''] \<rparr>]"
proof -
  let ?ns = "createNodes cfg cw ch dpr rnd scenarioNotes"
  have "tagPass (fst (linkPass lowerLatin1 ?ns)) (snd (linkPass lowerLatin1 ?ns))
          = tagPass (map erase (fst (linkPass lowerLatin1 ?ns))) (snd (linkPass lowerLatin1 ?ns))"
    by (simp add: tagPass_erase)
  also have "\<dots> = tagPass (map (\<lambda>n. erase (createNode cfg cw ch dpr rnd 0 n)) scenarioNotes)
                       [\<lparr> source = 1, target = 2, strength = 1, etype = None,
                          commonTags = None \<rparr>]"
    by (simp add: linkPass_erase erase_createNodes scenario_linkPass(1))
  also have "\<dots> = [\<lparr> source = 1, target = 2, strength = 1, etype = None, commonTags = None \<rparr>,
        \<lparr> source = 2, target = 3, strength = 3 / 10, etype = Some ''tag'',
          commonTags = Some [''x''] \<rparr>]"
    by (simp add: scenarioNotes_def tagPass_def tagStep_def existingEdge_def createNode_def
          erase_def Let_def)
  finally show ?thesis .
qed

text \<open>
  C2.  For the notes A (id 1, links to B), B (id 2, tag x) and C (id 3, tag x), on any canvas
  and with any random positions, \<^verbatim>\<open>generateGraph\<close> makes exactly two edges, the direct-link
  edge (1, 2) and the shared-tag edge (2, 3), and the connection counts of the nodes 1, 2, 3
  are 1, 1, 0.
\<close>

theorem scenario_graph:
  "edges (generateGraph rnd (newRenderer scenarioNotes m cw ch dpr))
     = [\<lparr> source = 1, target = 2, strength = 1, etype = None, commonTags = None \<rparr>,
        \<lparr> source = 2, target = 3, strength = 3 / 10, etype = Some ''tag'',
          commonTags = Some [''x''] \<rparr>]
   \<and> map node_id (nodes (generateGraph rnd (newRenderer scenarioNotes m cw ch dpr))) = [1, 2, 3]
   \<and> map connections (nodes (generateGraph rnd (newRenderer scenarioNotes m cw ch dpr)))
       = [1, 1, 0]"
proof -
  have n: "length (noteManager (newRenderer scenarioNotes m cw ch dpr)) \<noteq> 0"
    by (simp add: newRenderer_def scenarioNotes_def)
  have e: "edges (generateGraph rnd (newRenderer scenarioNotes m cw ch dpr))
     = [\<lparr> source = 1, target = 2, strength = 1, etype = None, commonTags = None \<rparr>,
        \<lparr> source = 2, target = 3, strength = 3 / 10, etype = Some ''tag'',
          commonTags = Some [''x''] \<rparr>]"
    using n by (simp add: generateGraph_edges) (simp add: newRenderer_def scenario_tagPass)
  have ns: "nodes (generateGraph rnd (newRenderer scenarioNotes m cw ch dpr))
      = centerGraph cw ch dpr (map (adjustRadius default_config)
          (fst (linkPass lowerLatin1 (createNodes default_config cw ch dpr rnd scenarioNotes))))"
    using n by (simp add: generateGraph_def Let_def newRenderer_def)
  show ?thesis
    by (simp add: e ns connections_centerGraph connections_adjustRadius scenario_linkPass)
qed

section \<open>Spring forces\<close>

lemma findNode_id_placed:
  "findNode (\<lambda>n. node_id n = a) ns = findNode (\<lambda>p. fst p = a) (map placed ns)"
  by (simp add: findNode_map placed_def)

lemma spec_springForce_placed:
  assumes "map placed ns = map placed ms"
  shows "spec_springForce ph ns e k = spec_springForce ph ms e k"
proof -
  have len: "length ns = length ms" using assms by (metis length_map)
  have fs: "findNode (\<lambda>n. node_id n = source e) ns = findNode (\<lambda>n. node_id n = source e) ms"
    and ft: "findNode (\<lambda>n. node_id n = target e) ns = findNode (\<lambda>n. node_id n = target e) ms"
    using assms by (simp_all add: findNode_id_placed)
  show ?thesis
  proof (cases "findNode (\<lambda>n. node_id n = source e) ms")
    case None
    then show ?thesis using fs by (simp add: spec_springForce_def)
  next
    case (Some i)
    note si = Some
    show ?thesis
    proof (cases "findNode (\<lambda>n. node_id n = target e) ms")
      case None
      then show ?thesis using fs ft si by (simp add: spec_springForce_def)
    next
      case (Some j)
      have il: "i < length ms" and jl: "j < length ms"
        using si Some by (simp_all add: findNode_Some_iff)
      have "node_x (ns ! i) = node_x (ms ! i)" "node_y (ns ! i) = node_y (ms ! i)"
        "node_x (ns ! j) = node_x (ms ! j)" "node_y (ns ! j) = node_y (ms ! j)"
        using placed_nth(2,3) [OF assms il] placed_nth(2,3) [OF assms jl] by simp_all
      then show ?thesis using fs ft si Some by (simp add: spec_springForce_def)
    qed
  qed
qed

lemma springStep_spec:
  assumes "k < length ns"
  shows "node_vx (springStep ph e ns ! k) = node_vx (ns ! k) + fst (spec_springForce ph ns e k)"
    and "node_vy (springStep ph e ns ! k) = node_vy (ns ! k) + snd (spec_springForce ph ns e k)"
proof -
  have "node_vx (springStep ph e ns ! k) = node_vx (ns ! k) + fst (spec_springForce ph ns e k)
      \<and> node_vy (springStep ph e ns ! k) = node_vy (ns ! k) + snd (spec_springForce ph ns e k)"
  proof (cases "findNode (\<lambda>n. node_id n = source e) ns")
    case None
    then show ?thesis by (simp add: springStep_def spec_springForce_def)
  next
    case (Some i)
    note si = Some
    show ?thesis
    proof (cases "findNode (\<lambda>n. node_id n = target e) ns")
      case None
      then show ?thesis using si by (simp add: springStep_def spec_springForce_def)
    next
      case (Some j)
      let ?d = "sqrt ((node_x (ns ! j) - node_x (ns ! i)) * (node_x (ns ! j) - node_x (ns ! i))
                        + (node_y (ns ! j) - node_y (ns ! i)) * (node_y (ns ! j) - node_y (ns ! i)))"
      show ?thesis
      proof (cases "0 < ?d")
        case False
        moreover have "0 \<le> ?d" by simp
        ultimately have z: "?d = 0" by linarith
        from z False show ?thesis using si Some
          by (simp add: springStep_def spec_springForce_def Let_def)
      next
        case True
        then have nz: "?d \<noteq> 0" by (rule less_imp_neq [THEN not_sym])
        note eff = springStep_effect [OF si Some True]
        have other: "springStep ph e ns ! k = ns ! k" if "k \<noteq> i" "k \<noteq> j"
          using that si Some nz
          by (simp add: springStep_def Let_def)
        show ?thesis
        proof (cases "k = i")
          case ki: True
          then show ?thesis using eff(2,3) [of ph] si Some True
            by (simp add: spec_springForce_def Let_def mult.commute)
        next
          case ki: False
          show ?thesis
          proof (cases "k = j")
            case kj: True
            then show ?thesis using eff(1) eff(4,5) [of ph] si Some True ki
              by (simp add: spec_springForce_def Let_def mult.commute)
          next
            case False
            then show ?thesis using other ki si Some True
              by (simp add: spec_springForce_def Let_def)
          qed
        qed
      qed
    qed
  qed
  then show "node_vx (springStep ph e ns ! k) = node_vx (ns ! k) + fst (spec_springForce ph ns e k)"
    and "node_vy (springStep ph e ns ! k) = node_vy (ns ! k) + snd (spec_springForce ph ns e k)"
    by simp_all
qed

lemma length_springStep: "length (springStep ph e ns) = length ns"
  using placed_springStep [of ph e ns] by (metis length_map)

lemma springPass_sum:
  assumes "k < length ns"
  shows "node_vx (springPass ph es ns ! k)
           = node_vx (ns ! k) + sum_list (map (\<lambda>e. fst (spec_springForce ph ns e k)) es)
       \<and> node_vy (springPass ph es ns ! k)
           = node_vy (ns ! k) + sum_list (map (\<lambda>e. snd (spec_springForce ph ns e k)) es)"
  using assms
proof (induction es arbitrary: ns)
  case Nil
  then show ?case by (simp add: springPass_def)
next
  case (Cons e es)
  have k': "k < length (springStep ph e ns)" using Cons.prems by (simp add: length_springStep)
  have same: "spec_springForce ph (springStep ph e ns) e' k = spec_springForce ph ns e' k" for e'
    by (rule spec_springForce_placed) (rule placed_springStep)
  have "springPass ph (e # es) ns = springPass ph es (springStep ph e ns)"
    by (simp add: springPass_def)
  then show ?case
    using Cons.IH [OF k'] springStep_spec [OF Cons.prems, of ph e]
    by (simp add: same)
qed

lemma spec_springForce_resolved:
  assumes si: "findNode (\<lambda>n. node_id n = source e) ns = Some i"
      and sj: "findNode (\<lambda>n. node_id n = target e) ns = Some j"
      and pos: "0 < sqrt ((node_x (ns ! j) - node_x (ns ! i)) * (node_x (ns ! j) - node_x (ns ! i))
                          + (node_y (ns ! j) - node_y (ns ! i)) * (node_y (ns ! j) - node_y (ns ! i)))"
  defines "dx \<equiv> node_x (ns ! j) - node_x (ns ! i)"
      and "dy \<equiv> node_y (ns ! j) - node_y (ns ! i)"
  defines "d \<equiv> sqrt (dx * dx + dy * dy)"
  shows "spec_springForce ph ns e i
           = ((dx / d) * (attraction ph * (d - (if etype e = Some ''tag'' then maxDistance ph * (3 / 2)
                                                else maxDistance ph)) * strength e),
              (dy / d) * (attraction ph * (d - (if etype e = Some ''tag'' then maxDistance ph * (3 / 2)
                                                else maxDistance ph)) * strength e))"
    and "spec_springForce ph ns e j
           = (- fst (spec_springForce ph ns e i), - snd (spec_springForce ph ns e i))"
proof -
  have ij: "i \<noteq> j" using pos by auto
  show "spec_springForce ph ns e i
           = ((dx / d) * (attraction ph * (d - (if etype e = Some ''tag'' then maxDistance ph * (3 / 2)
                                                else maxDistance ph)) * strength e),
              (dy / d) * (attraction ph * (d - (if etype e = Some ''tag'' then maxDistance ph * (3 / 2)
                                                else maxDistance ph)) * strength e))"
    using si sj pos unfolding d_def dx_def dy_def
    by (simp add: spec_springForce_def Let_def mult.commute)
  show "spec_springForce ph ns e j
           = (- fst (spec_springForce ph ns e i), - snd (spec_springForce ph ns e i))"
    using si sj pos ij unfolding d_def dx_def dy_def
    by (simp add: spec_springForce_def Let_def)
qed

text \<open>
  The attraction constant of the configuration is positive and every edge that
  \<^verbatim>\<open>generateGraph\<close> makes has a positive strength (1 or 0.3).
\<close>

lemma default_attraction: "0 < attraction (physics default_config)"
  by (simp add: default_config_def)

lemma config_generateGraph [simp]: "config (generateGraph rnd s) = config s"
  by (simp add: generateGraph_def Let_def)

lemma linkStep_strength:
  assumes "\<forall>e\<in>set (snd st). 0 < strength e"
  shows "\<forall>e\<in>set (snd (linkStep lc i t st)). 0 < strength e"
  using assms by (auto simp add: linkStep_def Let_def split: option.splits)

lemma tagStep_strength:
  assumes "\<forall>e\<in>set es. 0 < strength e"
  shows "\<forall>e\<in>set (tagStep a b es). 0 < strength e"
  using assms by (auto simp add: tagStep_def Let_def split: option.splits)

lemma linkPass_strength: "\<forall>e\<in>set (snd (linkPass lc ns)). 0 < strength e"
  unfolding linkPass_def
proof (rule fold_invariant [where P = "\<lambda>st. \<forall>e\<in>set (snd st). 0 < strength e"])
  fix i and st :: "'a node list \<times> 'a edge list"
  assume "\<forall>e\<in>set (snd st). 0 < strength e"
  then show "\<forall>e\<in>set (snd (linkNode lc i st)). 0 < strength e"
    unfolding linkNode_def
    by (intro fold_invariant [where P = "\<lambda>st. \<forall>e\<in>set (snd st). 0 < strength e"])
       (use linkStep_strength in blast)
qed simp

lemma tagPass_strength:
  fixes es :: "'i edge list"
  assumes "\<forall>e\<in>set es. 0 < strength e"
  shows "\<forall>e\<in>set (tagPass ns es). 0 < strength e"
  unfolding tagPass_def
proof (rule fold_invariant [where P = "\<lambda>s. \<forall>e\<in>set s. 0 < strength e"])
  fix a and s :: "'i edge list"
  assume "\<forall>e\<in>set s. 0 < strength e"
  then show "\<forall>e\<in>set (fold (tagStep a) ns s). 0 < strength e"
    by (intro fold_invariant [where P = "\<lambda>s. \<forall>e\<in>set s. 0 < strength e"])
       (use tagStep_strength in blast)
qed (rule assms)

lemma generateGraph_strength: "\<forall>e\<in>set (edges (generateGraph rnd s)). 0 < strength e"
  using tagPass_strength [OF linkPass_strength] by (auto simp add: generateGraph_edges)

lemma linkedView_graph:
  "nodes linkedView
     = [\<lparr> node_id = 1, title = [CHR 0xC9], content = [], tags = [''x''],
          node_x = 350, node_y = 300, node_vx = 0, node_vy = 0, radius = 10, connections = 1,
          node_note = accentNotes ! 0 \<rparr>,
        \<lparr> node_id = 2, title = ''N'', content = [], tags = [''y'', ''x''],
          node_x = 450, node_y = 300, node_vx = 0, node_vy = 0, radius = 10, connections = 1,
          node_note = accentNotes ! 1 \<rparr>]"
  "edges linkedView
     = [\<lparr> source = 2, target = 1, strength = 1, etype = None, commonTags = None \<rparr>]"
  "config linkedView = default_config"
  by (simp_all add: linkedView_def accentView_def generateGraph_def newRenderer_def
        accentNotes_def createNodes_def createNode_def linkPass_def linkNode_def linkStep_def
        existingEdge_def tagPass_def tagStep_def adjustRadius_def centerGraph_def
        getGraphBounds_def default_config_def lower_accent Let_def upt_rec [of 0]
        eval_nat_numeral)

lemma repelPass_linkedView:
  "map node_vx (repelPass (physics default_config) (nodes linkedView)) = [- 1 / 50, 1 / 50]"
  by (simp add: linkedView_graph repelPass_def repelStep_def default_config_def Let_def
        sqrt_10000 upt_rec [of 0] eval_nat_numeral)

text \<open>
  C3.  In a physics step the velocity with which a node enters the last pass is its velocity
  after the repulsion pass plus the sum, over all edges, of the spring force of the edge on
  that node, computed from the positions the step started with; the step then leaves the
  dragged node as it is and integrates every other node from there.  For an edge whose two
  endpoints resolve to the nodes at positions \<open>i\<close> and \<open>j\<close>, at distance \<open>d > 0\<close>: the force on
  the source is \<open>attraction * (d - targetDistance) * strength\<close> times the unit vector from the
  source to the target, with the target distance \<open>maxDistance\<close> for a direct-link edge and
  \<open>1.5 * maxDistance\<close> for a shared-tag edge; its length is the absolute value of that
  product; the force on the target is the opposite vector; and with a positive attraction
  constant and a positive strength the source is pulled towards the target beyond the target
  distance and pushed away from it below.
\<close>

theorem spring_force:
  assumes "k < length (nodes s)"
  shows "let ph = physics (config s); ns = nodes s
         in node_vx (applyForces s ! k)
              = node_vx (repelPass ph ns ! k)
                + sum_list (map (\<lambda>e. fst (spec_springForce ph ns e k)) (edges s))
          \<and> node_vy (applyForces s ! k)
              = node_vy (repelPass ph ns ! k)
                + sum_list (map (\<lambda>e. snd (spec_springForce ph ns e k)) (edges s))
          \<and> nodes (updatePhysics s) ! k
              = (if Some k = dragNode s then applyForces s ! k
                 else integrateNode ph (canvas_width s / devicePixelRatio s)
                        (canvas_height s / devicePixelRatio s) (applyForces s ! k))
          \<and> (\<forall>e i j.
                findNode (\<lambda>n. node_id n = source e) ns = Some i
                \<and> findNode (\<lambda>n. node_id n = target e) ns = Some j
                \<and> 0 < sqrt ((node_x (ns ! j) - node_x (ns ! i)) * (node_x (ns ! j) - node_x (ns ! i))
                            + (node_y (ns ! j) - node_y (ns ! i)) * (node_y (ns ! j) - node_y (ns ! i)))
                \<longrightarrow>
                (let dx = node_x (ns ! j) - node_x (ns ! i);
                     dy = node_y (ns ! j) - node_y (ns ! i);
                     d = sqrt (dx * dx + dy * dy);
                     targetDistance = (if etype e = Some ''tag'' then maxDistance ph * (3 / 2)
                                       else maxDistance ph);
                     force = attraction ph * (d - targetDistance) * strength e;
                     fi = spec_springForce ph ns e i;
                     fj = spec_springForce ph ns e j
                 in fi = ((dx / d) * force, (dy / d) * force)
                    \<and> fj = (- fst fi, - snd fi)
                    \<and> sqrt (fst fi * fst fi + snd fi * snd fi) = \<bar>force\<bar>
                    \<and> (0 < attraction ph \<and> 0 < strength e \<longrightarrow>
                         (targetDistance < d \<longrightarrow> 0 < fst fi * dx + snd fi * dy)
                         \<and> (d < targetDistance \<longrightarrow> fst fi * dx + snd fi * dy < 0))))"
proof -
  define ph where "ph = physics (config s)"
  define ns where "ns = nodes s"
  have kr: "k < length (repelPass ph ns)"
    using assms placed_repelPass [of ph ns] unfolding ns_def by (metis length_map)
  have same: "spec_springForce ph (repelPass ph ns) e k = spec_springForce ph ns e k" for e
    by (rule spec_springForce_placed) (rule placed_repelPass)
  have sums: "node_vx (applyForces s ! k)
              = node_vx (repelPass ph ns ! k)
                + sum_list (map (\<lambda>e. fst (spec_springForce ph ns e k)) (edges s))
          \<and> node_vy (applyForces s ! k)
              = node_vy (repelPass ph ns ! k)
                + sum_list (map (\<lambda>e. snd (spec_springForce ph ns e k)) (edges s))"
    using springPass_sum [OF kr, of ph "edges s"]
    by (simp add: applyForces_def ph_def [symmetric] ns_def [symmetric] same)
  have step: "nodes (updatePhysics s) ! k
              = (if Some k = dragNode s then applyForces s ! k
                 else integrateNode ph (canvas_width s / devicePixelRatio s)
                        (canvas_height s / devicePixelRatio s) (applyForces s ! k))"
    using assms by (simp add: nth_updatePhysics ph_def)
  have edge: "(let dx = node_x (ns ! j) - node_x (ns ! i);
                     dy = node_y (ns ! j) - node_y (ns ! i);
                     d = sqrt (dx * dx + dy * dy);
                     targetDistance = (if etype e = Some ''tag'' then maxDistance ph * (3 / 2)
                                       else maxDistance ph);
                     force = attraction ph * (d - targetDistance) * strength e;
                     fi = spec_springForce ph ns e i;
                     fj = spec_springForce ph ns e j
                 in fi = ((dx / d) * force, (dy / d) * force)
                    \<and> fj = (- fst fi, - snd fi)
                    \<and> sqrt (fst fi * fst fi + snd fi * snd fi) = \<bar>force\<bar>
                    \<and> (0 < attraction ph \<and> 0 < strength e \<longrightarrow>
                         (targetDistance < d \<longrightarrow> 0 < fst fi * dx + snd fi * dy)
                         \<and> (d < targetDistance \<longrightarrow> fst fi * dx + snd fi * dy < 0)))"
    if si: "findNode (\<lambda>n. node_id n = source e) ns = Some i"
      and sj: "findNode (\<lambda>n. node_id n = target e) ns = Some j"
      and pos: "0 < sqrt ((node_x (ns ! j) - node_x (ns ! i)) * (node_x (ns ! j) - node_x (ns ! i))
                          + (node_y (ns ! j) - node_y (ns ! i)) * (node_y (ns ! j) - node_y (ns ! i)))"
    for e :: "'a edge" and i j
  proof -
    define dx where "dx = node_x (ns ! j) - node_x (ns ! i)"
    define dy where "dy = node_y (ns ! j) - node_y (ns ! i)"
    define d where "d = sqrt (dx * dx + dy * dy)"
    define T where "T = (if etype e = Some ''tag'' then maxDistance ph * (3 / 2) else maxDistance ph)"
    define F where "F = attraction ph * (d - T) * strength e"
    define fi where "fi = spec_springForce ph ns e i"
    define fj where "fj = spec_springForce ph ns e j"
    have dpos: "0 < d" using pos by (simp add: d_def dx_def dy_def)
    have fi: "fi = ((dx / d) * F, (dy / d) * F)"
      using spec_springForce_resolved(1) [OF si sj pos, of ph]
      by (simp add: fi_def F_def T_def d_def dx_def dy_def)
    have fj: "fj = (- fst fi, - snd fi)"
      using spec_springForce_resolved(2) [OF si sj pos, of ph] by (simp add: fi_def fj_def)
    have mag: "sqrt (fst fi * fst fi + snd fi * snd fi) = \<bar>F\<bar>"
      unfolding fi using unit_scaled(1) [OF d_def dpos] by simp
    have dot: "fst fi * dx + snd fi * dy = F * d"
      unfolding fi using unit_scaled(2) [OF d_def dpos] by simp
    have sign: "(T < d \<longrightarrow> 0 < fst fi * dx + snd fi * dy)
                \<and> (d < T \<longrightarrow> fst fi * dx + snd fi * dy < 0)"
      if "0 < attraction ph" "0 < strength e"
      using that dpos unfolding dot F_def
      by (simp add: mult_less_0_iff zero_less_mult_iff)
    show ?thesis
      using fi fj mag sign
      unfolding Let_def fi_def fj_def F_def T_def d_def dx_def dy_def by blast
  qed
  show ?thesis
    unfolding Let_def ph_def [symmetric] ns_def [symmetric]
    using sums step edge [unfolded Let_def] by blast
qed

theorem spring_force_witness:
  "1 < length (nodes linkedView)
   \<and> edges linkedView = [\<lparr> source = 2, target = 1, strength = 1, etype = None,
                             commonTags = None \<rparr>]
   \<and> findNode (\<lambda>n. node_id n = source (edges linkedView ! 0)) (nodes linkedView) = Some 1
   \<and> findNode (\<lambda>n. node_id n = target (edges linkedView ! 0)) (nodes linkedView) = Some 0
   \<and> sqrt ((node_x (nodes linkedView ! 0) - node_x (nodes linkedView ! 1))
             * (node_x (nodes linkedView ! 0) - node_x (nodes linkedView ! 1))
           + (node_y (nodes linkedView ! 0) - node_y (nodes linkedView ! 1))
             * (node_y (nodes linkedView ! 0) - node_y (nodes linkedView ! 1))) = 100
   \<and> maxDistance (physics (config linkedView)) = 200
   \<and> 0 < attraction (physics (config linkedView))
   \<and> 0 < strength (edges linkedView ! 0)
   \<and> spec_springForce (physics (config linkedView)) (nodes linkedView) (edges linkedView ! 0) 1
       = (1, 0)
   \<and> spec_springForce (physics (config linkedView)) (nodes linkedView) (edges linkedView ! 0) 0
       = (- 1, 0)
   \<and> node_vx (nodes linkedView ! 1) = 0
   \<and> node_vx (repelPass (physics (config linkedView)) (nodes linkedView) ! 1) = 1 / 50
   \<and> node_vx (applyForces linkedView ! 1) = 51 / 50
   \<and> nodes (updatePhysics linkedView) ! 1
       = integrateNode (physics (config linkedView))
           (canvas_width linkedView / devicePixelRatio linkedView)
           (canvas_height linkedView / devicePixelRatio linkedView) (applyForces linkedView ! 1)"
proof -
  have k: "1 < length (nodes linkedView)" by (simp add: linkedView_graph)
  have src: "findNode (\<lambda>n. node_id n = source (edges linkedView ! 0)) (nodes linkedView) = Some 1"
    and tgt: "findNode (\<lambda>n. node_id n = target (edges linkedView ! 0)) (nodes linkedView) = Some 0"
    by (simp_all add: linkedView_graph)
  have d: "sqrt ((node_x (nodes linkedView ! 0) - node_x (nodes linkedView ! 1))
             * (node_x (nodes linkedView ! 0) - node_x (nodes linkedView ! 1))
           + (node_y (nodes linkedView ! 0) - node_y (nodes linkedView ! 1))
             * (node_y (nodes linkedView ! 0) - node_y (nodes linkedView ! 1))) = 100"
    by (simp add: linkedView_graph sqrt_10000)
  have att: "0 < attraction (physics (config linkedView))"
    using default_attraction by (simp add: linkedView_graph)
  have "edges linkedView ! 0 \<in> set (edges (generateGraph (\<lambda>k. if k = 2 then 1 / 8 else 0) accentView))"
    by (simp add: linkedView_def [symmetric] linkedView_graph)
  then have str: "0 < strength (edges linkedView ! 0)"
    using generateGraph_strength by blast
  have nd: "dragNode linkedView \<noteq> Some 1"
    by (simp add: linkedView_def accentView_def generateGraph_def newRenderer_def Let_def)
  have rp: "node_vx (repelPass (physics (config linkedView)) (nodes linkedView) ! 1) = 1 / 50"
  proof -
    have "node_vx (repelPass (physics default_config) (nodes linkedView) ! 1)
            = map node_vx (repelPass (physics default_config) (nodes linkedView)) ! 1"
      using k placed_repelPass [of "physics default_config" "nodes linkedView"]
      by (metis length_map nth_map)
    then show ?thesis by (simp add: repelPass_linkedView linkedView_graph(3))
  qed
  from spring_force [OF k] k src tgt d att str nd rp
  show ?thesis
    by (simp add: Let_def linkedView_graph spec_springForce_def default_config_def sqrt_10000)
qed

end
